theory Spec2Isabelle
  imports Complex_Main
begin

section \<open>RTL-SDR spectrum wallpaper\<close>

text \<open>
  The program reads the last row of a capture file, normalises its power readings and
  draws them as a frame. Exceptions are values: a function that can raise returns
  \<open>Inl\<close> of the exception or \<open>Inr\<close> of its result.
\<close>

subsection \<open>Python floats\<close>

text \<open>
  A float is a finite value, plus or minus infinity, or nan. A finite value is a real
  number: rounding to 53 bits is not modelled. Overflow is: an operation whose exact
  result has magnitude \<open>2^1024 - 2^970\<close> or more (the doubles' largest value plus half a
  unit in its last place) returns an infinity, as rounding to nearest does. The two zeros
  are one value; they differ only as divisors, and Python raises on a zero divisor.
\<close>

datatype pyfloat = Fin real | PInf | NInf | NaN

datatype py_exception = OSError | ValueError | IndexError | OverflowError | ZeroDivisionError

definition overflow_threshold :: real where
  "overflow_threshold = 2 ^ 1024 - 2 ^ 970"

definition fin :: "real \<Rightarrow> pyfloat" where
  "fin r = (if overflow_threshold \<le> r then PInf
            else if r \<le> - overflow_threshold then NInf
            else Fin r)"

fun fneg :: "pyfloat \<Rightarrow> pyfloat" where
  "fneg (Fin a) = Fin (- a)"
| "fneg PInf = NInf"
| "fneg NInf = PInf"
| "fneg NaN = NaN"

fun fadd :: "pyfloat \<Rightarrow> pyfloat \<Rightarrow> pyfloat" where
  "fadd NaN y = NaN"
| "fadd x NaN = NaN"
| "fadd (Fin a) (Fin b) = fin (a + b)"
| "fadd PInf NInf = NaN"
| "fadd NInf PInf = NaN"
| "fadd PInf y = PInf"
| "fadd x PInf = PInf"
| "fadd NInf y = NInf"
| "fadd x NInf = NInf"

definition fsub :: "pyfloat \<Rightarrow> pyfloat \<Rightarrow> pyfloat" where
  "fsub x y = fadd x (fneg y)"

fun fmul :: "pyfloat \<Rightarrow> pyfloat \<Rightarrow> pyfloat" where
  "fmul NaN y = NaN"
| "fmul x NaN = NaN"
| "fmul (Fin a) (Fin b) = fin (a * b)"
| "fmul (Fin a) PInf = (if a = 0 then NaN else if 0 < a then PInf else NInf)"
| "fmul (Fin a) NInf = (if a = 0 then NaN else if 0 < a then NInf else PInf)"
| "fmul PInf (Fin b) = (if b = 0 then NaN else if 0 < b then PInf else NInf)"
| "fmul NInf (Fin b) = (if b = 0 then NaN else if 0 < b then NInf else PInf)"
| "fmul PInf PInf = PInf"
| "fmul PInf NInf = NInf"
| "fmul NInf PInf = NInf"
| "fmul NInf NInf = PInf"

text \<open>The quotient by a divisor that is not zero.\<close>

fun fdiv :: "pyfloat \<Rightarrow> pyfloat \<Rightarrow> pyfloat" where
  "fdiv NaN y = NaN"
| "fdiv x NaN = NaN"
| "fdiv (Fin a) (Fin b) = fin (a / b)"
| "fdiv (Fin a) PInf = Fin 0"
| "fdiv (Fin a) NInf = Fin 0"
| "fdiv PInf (Fin b) = (if 0 < b then PInf else NInf)"
| "fdiv NInf (Fin b) = (if 0 < b then NInf else PInf)"
| "fdiv x y = NaN"

text \<open>\<^verbatim>\<open>x / y\<close>: Python raises ZeroDivisionError when the divisor is zero.\<close>

definition py_truediv :: "pyfloat \<Rightarrow> pyfloat \<Rightarrow> py_exception + pyfloat" where
  "py_truediv x y = (if y = Fin 0 then Inl ZeroDivisionError else Inr (fdiv x y))"

text \<open>\<^verbatim>\<open>x < y\<close>, \<^verbatim>\<open>x > y\<close> and \<^verbatim>\<open>x == y\<close>: every comparison with nan is false.\<close>

fun flt :: "pyfloat \<Rightarrow> pyfloat \<Rightarrow> bool" where
  "flt NaN y = False"
| "flt x NaN = False"
| "flt (Fin a) (Fin b) = (a < b)"
| "flt NInf NInf = False"
| "flt NInf y = True"
| "flt x PInf = (x \<noteq> PInf)"
| "flt x y = False"

definition fgt :: "pyfloat \<Rightarrow> pyfloat \<Rightarrow> bool" where
  "fgt x y = flt y x"

definition feq :: "pyfloat \<Rightarrow> pyfloat \<Rightarrow> bool" where
  "feq x y = (x = y \<and> x \<noteq> NaN)"

definition fle :: "pyfloat \<Rightarrow> pyfloat \<Rightarrow> bool" where
  "fle x y = (flt x y \<or> feq x y)"

text \<open>
  \<^verbatim>\<open>int(x)\<close> truncates a finite float towards zero; it raises ValueError on nan and
  OverflowError on an infinity.
\<close>

definition py_trunc :: "real \<Rightarrow> int" where
  "py_trunc x = (if 0 \<le> x then \<lfloor>x\<rfloor> else \<lceil>x\<rceil>)"

definition py_int :: "pyfloat \<Rightarrow> py_exception + int" where
  "py_int x =
     (case x of
        Fin r \<Rightarrow> Inr (py_trunc r)
      | NaN \<Rightarrow> Inl ValueError
      | _ \<Rightarrow> Inl OverflowError)"

text \<open>
  \<^verbatim>\<open>min(xs)\<close> and \<^verbatim>\<open>max(xs)\<close> of the non-empty list \<open>x # xs\<close>: the candidate is the
  first element, and a later item replaces it when it compares smaller (larger).
\<close>

definition py_min :: "pyfloat \<Rightarrow> pyfloat list \<Rightarrow> pyfloat" where
  "py_min x xs = fold (\<lambda>item cur. if flt item cur then item else cur) xs x"

definition py_max :: "pyfloat \<Rightarrow> pyfloat list \<Rightarrow> pyfloat" where
  "py_max x xs = fold (\<lambda>item cur. if fgt item cur then item else cur) xs x"

subsection \<open>normalize_db_values\<close>

text \<open>
  \<^verbatim>\<open>
  def normalize_db_values(db_values):
      if not db_values:
          return []
      min_db = min(db_values)
      max_db = max(db_values)
      if max_db == min_db:
          return [0.5] * len(db_values)
      return [(db - min_db) / (max_db - min_db) for db in db_values]
  \<close>
  The list comprehension evaluates its elements in order and stops at the first exception.
\<close>

fun comprehension :: "('a \<Rightarrow> py_exception + 'b) \<Rightarrow> 'a list \<Rightarrow> py_exception + 'b list" where
  "comprehension f [] = Inr []"
| "comprehension f (x # xs) =
     (case f x of
        Inl e \<Rightarrow> Inl e
      | Inr y \<Rightarrow> (case comprehension f xs of Inl e \<Rightarrow> Inl e | Inr ys \<Rightarrow> Inr (y # ys)))"

definition normalize_db_values :: "pyfloat list \<Rightarrow> py_exception + pyfloat list" where
  "normalize_db_values db_values =
     (case db_values of
        [] \<Rightarrow> Inr []
      | x # xs \<Rightarrow>
          let min_db = py_min x xs; max_db = py_max x xs
          in if feq max_db min_db then Inr (replicate (length db_values) (Fin 0.5))
             else comprehension (\<lambda>db. py_truediv (fsub db min_db) (fsub max_db min_db))
                    db_values)"

text \<open>A float within 0.001 of a real number.\<close>

definition close_to :: "pyfloat \<Rightarrow> real \<Rightarrow> bool" where
  "close_to x a = (case x of Fin r \<Rightarrow> \<bar>r - a\<bar> \<le> 0.001 | _ \<Rightarrow> False)"

definition in_unit :: "pyfloat \<Rightarrow> bool" where
  "in_unit x = (case x of Fin r \<Rightarrow> 0 \<le> r \<and> r \<le> 1 | _ \<Rightarrow> False)"

subsection \<open>spectrum_color_gradient\<close>

text \<open>
  \<^verbatim>\<open>
  def spectrum_color_gradient(value):
      if value < 0.3:
          intensity = int(value / 0.3 * 255)
          return (0, 0, intensity)
      elif value < 0.6:
          t = (value - 0.3) / 0.3
          return (0, int(t * 255), int((1-t) * 255))
      elif value < 0.8:
          t = (value - 0.6) / 0.2
          return (int(t * 255), 255, 0)
      else:
          t = (value - 0.8) / 0.2
          return (255, int((1-t) * 255), 0)
  \<close>
  The divisors are non-zero literals, so the divisions cannot raise; \<^verbatim>\<open>int\<close> can.
\<close>

type_synonym color = "int \<times> int \<times> int"

definition spectrum_color_gradient :: "pyfloat \<Rightarrow> py_exception + color" where
  "spectrum_color_gradient v =
     (if flt v (Fin 0.3) then
        (case py_int (fmul (fdiv v (Fin 0.3)) (Fin 255)) of
           Inl e \<Rightarrow> Inl e
         | Inr intensity \<Rightarrow> Inr (0, 0, intensity))
      else if flt v (Fin 0.6) then
        (let t = fdiv (fsub v (Fin 0.3)) (Fin 0.3)
         in case py_int (fmul t (Fin 255)) of
              Inl e \<Rightarrow> Inl e
            | Inr g \<Rightarrow>
               (case py_int (fmul (fsub (Fin 1) t) (Fin 255)) of
                  Inl e \<Rightarrow> Inl e
                | Inr b \<Rightarrow> Inr (0, g, b)))
      else if flt v (Fin 0.8) then
        (let t = fdiv (fsub v (Fin 0.6)) (Fin 0.2)
         in case py_int (fmul t (Fin 255)) of
              Inl e \<Rightarrow> Inl e
            | Inr r \<Rightarrow> Inr (r, 255, 0))
      else
        (let t = fdiv (fsub v (Fin 0.8)) (Fin 0.2)
         in case py_int (fmul (fsub (Fin 1) t) (Fin 255)) of
              Inl e \<Rightarrow> Inl e
            | Inr g \<Rightarrow> Inr (255, g, 0)))"

definition red :: "color \<Rightarrow> int" where "red c = fst c"
definition green :: "color \<Rightarrow> int" where "green c = fst (snd c)"
definition blue :: "color \<Rightarrow> int" where "blue c = snd (snd c)"

text \<open>
  The gradient in the words of the specification, on a finite value: four stages, each a
  linear interpolation between two colour stops, every channel converted with \<open>int\<close>.
\<close>

definition lerp :: "real \<Rightarrow> real \<Rightarrow> real \<Rightarrow> real" where
  "lerp a b t = a + (b - a) * t"

definition stage :: "color \<Rightarrow> color \<Rightarrow> real \<Rightarrow> color" where
  "stage c0 c1 t =
     (py_trunc (lerp (real_of_int (red c0)) (real_of_int (red c1)) t),
      py_trunc (lerp (real_of_int (green c0)) (real_of_int (green c1)) t),
      py_trunc (lerp (real_of_int (blue c0)) (real_of_int (blue c1)) t))"

definition gradient_spec :: "real \<Rightarrow> color" where
  "gradient_spec v =
     (if v < 0.3 then stage (0, 0, 0) (0, 0, 255) (v / 0.3)
      else if v < 0.6 then stage (0, 0, 255) (0, 255, 0) ((v - 0.3) / 0.3)
      else if v < 0.8 then stage (0, 255, 0) (255, 255, 0) ((v - 0.6) / 0.2)
      else stage (255, 255, 0) (255, 0, 0) ((v - 0.8) / 0.2))"

definition channel_ok :: "int \<Rightarrow> bool" where
  "channel_ok c = (0 \<le> c \<and> c \<le> 255)"

definition near :: "color \<Rightarrow> color \<Rightarrow> bool" where
  "near c d = (\<bar>red c - red d\<bar> \<le> 1 \<and> \<bar>green c - green d\<bar> \<le> 1 \<and> \<bar>blue c - blue d\<bar> \<le> 1)"

subsection \<open>Text built-ins: readlines, strip, split, float\<close>

text \<open>
  Text is a list of characters. \<open>universal_newlines\<close> is the translation that a file
  opened with \<^verbatim>\<open>open(path, 'r')\<close> applies on reading (\<^verbatim>\<open>\r\n\<close> and \<^verbatim>\<open>\r\<close>
  become \<^verbatim>\<open>\n\<close>); \<open>readlines\<close> cuts the text after every newline and keeps the
  newline at the end of each line, so the last line has one only if the file ends with it.
\<close>

abbreviation LF :: char where "LF \<equiv> CHR 0x0A"
abbreviation CR :: char where "CR \<equiv> CHR 0x0D"

fun universal_newlines :: "string \<Rightarrow> string" where
  "universal_newlines [] = []"
| "universal_newlines [c] = (if c = CR then [LF] else [c])"
| "universal_newlines (c # d # cs) =
     (if c = CR \<and> d = LF then LF # universal_newlines cs
      else if c = CR then LF # universal_newlines (d # cs)
      else c # universal_newlines (d # cs))"

fun cut_lines :: "string \<Rightarrow> string \<Rightarrow> string list" where
  "cut_lines acc [] = (if acc = [] then [] else [rev acc])"
| "cut_lines acc (c # cs) =
     (if c = LF then rev (c # acc) # cut_lines [] cs else cut_lines (c # acc) cs)"

definition readlines :: "string \<Rightarrow> string list" where
  "readlines content = cut_lines [] (universal_newlines content)"

text \<open>
  \<^verbatim>\<open>str.strip()\<close> removes leading and trailing whitespace. Of the characters below
  256 Python counts as whitespace: tab, newline, vertical tab, form feed, carriage
  return, the separators 0x1C to 0x1F, space, 0x85 and 0xA0.
\<close>

definition is_space :: "char \<Rightarrow> bool" where
  "is_space c = (of_char c \<in> {9, 10, 11, 12, 13, 28, 29, 30, 31, 32, 133, 160 :: nat})"

definition strip :: "string \<Rightarrow> string" where
  "strip s = rev (dropWhile is_space (rev (dropWhile is_space s)))"

text \<open>
  \<^verbatim>\<open>s.split(sep)\<close> for a one-character separator: the pieces between the
  separators, empty pieces included; a text without separator is one piece.
\<close>

fun split_acc :: "char \<Rightarrow> string \<Rightarrow> string \<Rightarrow> string list" where
  "split_acc sep acc [] = [rev acc]"
| "split_acc sep acc (c # cs) =
     (if c = sep then rev acc # split_acc sep [] cs else split_acc sep (c # acc) cs)"

definition split :: "char \<Rightarrow> string \<Rightarrow> string list" where
  "split sep s = split_acc sep [] s"

text \<open>\<^verbatim>\<open>sep.join(fields)\<close>, to speak about rows written field by field.\<close>

fun join :: "char \<Rightarrow> string list \<Rightarrow> string" where
  "join sep [] = []"
| "join sep [f] = f"
| "join sep (f # g # fs) = f @ sep # join sep (g # fs)"

text \<open>
  \<^verbatim>\<open>float(x)\<close> either returns a float, which may be an infinity or nan (it parses
  \<^verbatim>\<open>inf\<close> and \<^verbatim>\<open>nan\<close>), or raises ValueError. The reader below takes it as a
  parameter \<open>pf\<close>, \<open>None\<close> standing for ValueError. \<open>float_literal\<close> is what
  \<^verbatim>\<open>float\<close> returns on a plain decimal literal (an optional sign, digits, and an
  optional fraction); it is used where a concrete file is evaluated, and only on such
  literals.
\<close>

definition is_digit :: "char \<Rightarrow> bool" where
  "is_digit c = (48 \<le> (of_char c :: nat) \<and> (of_char c :: nat) \<le> 57)"

fun digits_value :: "nat \<Rightarrow> string \<Rightarrow> nat" where
  "digits_value acc [] = acc"
| "digits_value acc (c # cs) = digits_value (acc * 10 + (of_char c - 48)) cs"

definition unsigned_literal :: "string \<Rightarrow> real option" where
  "unsigned_literal s =
     (let ip = takeWhile is_digit s; rest = dropWhile is_digit s
      in case rest of
           [] \<Rightarrow> if ip = [] then None else Some (real (digits_value 0 ip))
         | c # fp \<Rightarrow>
             if c = CHR ''.'' \<and> list_all is_digit fp \<and> (ip \<noteq> [] \<or> fp \<noteq> [])
             then Some (real (digits_value 0 ip) + real (digits_value 0 fp) / 10 ^ length fp)
             else None)"

definition float_literal :: "string \<Rightarrow> pyfloat option" where
  "float_literal s =
     (case s of
        [] \<Rightarrow> None
      | c # cs \<Rightarrow>
          if c = CHR ''-'' then map_option (\<lambda>r. fin (- r)) (unsigned_literal cs)
          else if c = CHR ''+'' then map_option fin (unsigned_literal cs)
          else map_option fin (unsigned_literal s))"

subsection \<open>read_spectrum_data\<close>

text \<open>
  \<^verbatim>\<open>
  def read_spectrum_data(csv_path):
      try:
          if not os.path.exists(csv_path):
              return None
          with open(csv_path, 'r') as f:
              lines = f.readlines()
              if not lines:
                  return None
              last_line = lines[-1].strip()
              parts = last_line.split(',')
              if len(parts) < 6:
                  return None
              freq_low = float(parts[2])
              freq_high = float(parts[3])
              db_values = [float(x) for x in parts[6:]]
              return {'freq_low': freq_low, 'freq_high': freq_high, 'db_values': db_values}
      except Exception as e:
          print(f"[!] Error reading spectrum data: {e}")
          return None
  \<close>
  The file at \<^verbatim>\<open>csv_path\<close> is absent, or it exists and cannot be opened or read
  (\<^verbatim>\<open>open\<close> or \<^verbatim>\<open>readlines\<close> raises), or it has a content. The body of the
  \<^verbatim>\<open>try\<close> returns a value or raises; the handler turns every exception into
  \<^verbatim>\<open>None\<close>.
\<close>

datatype file_state = Absent | Unreadable | Content string

record sweep =
  freq_low :: pyfloat
  freq_high :: pyfloat
  db_values :: "pyfloat list"

definition py_float :: "(string \<Rightarrow> pyfloat option) \<Rightarrow> string \<Rightarrow> py_exception + pyfloat" where
  "py_float pf x = (case pf x of None \<Rightarrow> Inl ValueError | Some r \<Rightarrow> Inr r)"

definition read_spectrum_data_try :: "(string \<Rightarrow> pyfloat option) \<Rightarrow> file_state \<Rightarrow> py_exception + sweep option" where
  "read_spectrum_data_try pf fs =
     (case fs of
        Absent \<Rightarrow> Inr None
      | Unreadable \<Rightarrow> Inl OSError
      | Content content \<Rightarrow>
          (let lines = readlines content in
           if lines = [] then Inr None
           else
             let last_line = strip (last lines);
                 parts = split (CHR '','') last_line
             in if length parts < 6 then Inr None
                else
                  case py_float pf (parts ! 2) of
                    Inl e \<Rightarrow> Inl e
                  | Inr lo \<Rightarrow>
                     (case py_float pf (parts ! 3) of
                        Inl e \<Rightarrow> Inl e
                      | Inr hi \<Rightarrow>
                         (case comprehension (py_float pf) (drop 6 parts) of
                            Inl e \<Rightarrow> Inl e
                          | Inr dbs \<Rightarrow>
                              Inr (Some \<lparr>freq_low = lo, freq_high = hi, db_values = dbs\<rparr>)))))"

definition read_spectrum_data :: "(string \<Rightarrow> pyfloat option) \<Rightarrow> file_state \<Rightarrow> sweep option" where
  "read_spectrum_data pf fs =
     (case read_spectrum_data_try pf fs of Inl e \<Rightarrow> None | Inr r \<Rightarrow> r)"

text \<open>The fields of the last line, as the reader computes them.\<close>

definition last_row :: "string \<Rightarrow> string list" where
  "last_row content = split (CHR '','') (strip (last (readlines content)))"

subsection \<open>create_spectrum_image\<close>

text \<open>
  A frame is the image that \<^verbatim>\<open>Image.new('RGB', (SCREEN_WIDTH, SCREEN_HEIGHT), BG_COLOR)\<close>
  creates, with the drawing calls made on it, in order. The text of a call that formats
  numbers is kept with the numbers unformatted. Two things come from outside the program:
  whether the TrueType font file can be loaded (\<open>found\<close>), and the string that
  \<^verbatim>\<open>time.strftime\<close> returns (\<open>now\<close>). The rendering style \<^verbatim>\<open>BARS_STYLE\<close> is a
  configuration constant that the source tells the user to edit; it is a parameter here.
  A drawing call is recorded and returns. When an exception leaves the function, the
  image is not returned; the calls made on it until then are kept in the outcome.
\<close>

definition SCREEN_WIDTH :: int where "SCREEN_WIDTH = 1920"
definition SCREEN_HEIGHT :: int where "SCREEN_HEIGHT = 1080"
definition BG_COLOR :: color where "BG_COLOR = (10, 10, 20)"
definition SPECTRUM_COLOR :: color where "SPECTRUM_COLOR = (0, 255, 100)"
definition TEXT_COLOR :: color where "TEXT_COLOR = (100, 255, 200)"
definition GRID_COLOR :: color where "GRID_COLOR = (30, 30, 50)"
definition BARS_STYLE :: bool where "BARS_STYLE = True"

text \<open>The intensity characters, as code points: space and U+2591, U+2592, U+2593, U+2588.\<close>

definition ASCII_CHARS :: "nat list" where
  "ASCII_CHARS = [0x20, 0x2591, 0x2592, 0x2593, 0x2588]"

datatype font = TrueType nat | Default_font

datatype caption =
    Message string
  | Title pyfloat pyfloat
  | Frequency pyfloat
  | Timestamp string
  | Glyph nat

datatype draw_op =
    Line "int \<times> int" "int \<times> int" color nat
  | Rectangle "pyfloat \<times> pyfloat" "pyfloat \<times> pyfloat" color
  | Text "pyfloat \<times> pyfloat" caption color font

record frame =
  frame_size :: "int \<times> int"
  frame_bg :: color
  frame_ops :: "draw_op list"

datatype outcome = Returns frame | Raises py_exception frame

fun image_of :: "outcome \<Rightarrow> frame" where
  "image_of (Returns img) = img"
| "image_of (Raises e img) = img"

text \<open>\<^verbatim>\<open>try: ImageFont.truetype(path, size)  except: ImageFont.load_default()\<close>\<close>

definition load_font :: "bool \<Rightarrow> nat \<Rightarrow> font" where
  "load_font found pt = (if found then TrueType pt else Default_font)"

text \<open>\<^verbatim>\<open>range(start, stop, step)\<close> for a positive step.\<close>

definition py_range :: "int \<Rightarrow> int \<Rightarrow> int \<Rightarrow> int list" where
  "py_range start stop step =
     map (\<lambda>k. start + int k * step) [0 ..< nat ((stop - start + step - 1) div step)]"

text \<open>\<^verbatim>\<open>xs[i]\<close>: a negative index counts from the end; out of range raises IndexError.\<close>

definition py_index :: "'a list \<Rightarrow> int \<Rightarrow> py_exception + 'a" where
  "py_index xs i =
     (if 0 \<le> i \<and> i < int (length xs) then Inr (xs ! nat i)
      else if i < 0 \<and> - int (length xs) \<le> i then Inr (xs ! nat (int (length xs) + i))
      else Inl IndexError)"

definition margin_x :: int where "margin_x = 100"
definition margin_y :: int where "margin_y = 100"
definition plot_width :: int where "plot_width = SCREEN_WIDTH - 2 * margin_x"
definition plot_height :: int where "plot_height = SCREEN_HEIGHT - 2 * margin_y"

text \<open>
  The products \<^verbatim>\<open>plot_height * i\<close> and \<^verbatim>\<open>plot_width * i\<close> are small integers and
  the divisor is a literal, so the quotient is finite and \<^verbatim>\<open>int\<close> truncates it.
  \<^verbatim>\<open>
  for i in range(0, 11, 2):
      y = margin_y + int(plot_height * i / 10)
      draw.line([(margin_x, y), (SCREEN_WIDTH - margin_x, y)], fill=GRID_COLOR, width=1)
  for i in range(0, 11, 2):
      x = margin_x + int(plot_width * i / 10)
      draw.line([(x, margin_y), (x, SCREEN_HEIGHT - margin_y)], fill=GRID_COLOR, width=1)
  \<close>
\<close>

definition grid_horizontal :: "draw_op list" where
  "grid_horizontal =
     map (\<lambda>i. let y = margin_y + py_trunc (real_of_int (plot_height * i) / 10)
              in Line (margin_x, y) (SCREEN_WIDTH - margin_x, y) GRID_COLOR 1)
         (py_range 0 11 2)"

definition grid_vertical :: "draw_op list" where
  "grid_vertical =
     map (\<lambda>i. let x = margin_x + py_trunc (real_of_int (plot_width * i) / 10)
              in Line (x, margin_y) (x, SCREEN_HEIGHT - margin_y) GRID_COLOR 1)
         (py_range 0 11 2)"

text \<open>
  \<^verbatim>\<open>
  for i, value in enumerate(normalized):
      x = margin_x + i * bar_width
      bar_height = value * plot_height
      y = SCREEN_HEIGHT - margin_y - bar_height
      if BARS_STYLE:
          color = spectrum_color_gradient(value)
          draw.rectangle([x, y, x + bar_width - 1, SCREEN_HEIGHT - margin_y], fill=color)
      else:
          char_index = int(value * (len(ASCII_CHARS) - 1))
          char = ASCII_CHARS[char_index]
          ...
          num_chars = int(value * 30)
          for j in range(num_chars):
              char_y = SCREEN_HEIGHT - margin_y - j * 20
              draw.text((x, char_y), char, fill=SPECTRUM_COLOR, font=font)
  \<close>
\<close>

definition char_index :: "pyfloat \<Rightarrow> py_exception + int" where
  "char_index v = py_int (fmul v (Fin (real_of_int (int (length ASCII_CHARS) - 1))))"

definition draw_value ::
    "bool \<Rightarrow> bool \<Rightarrow> pyfloat \<Rightarrow> nat \<Rightarrow> pyfloat \<Rightarrow> py_exception + draw_op list" where
  "draw_value bars found bar_width i v =
     (let x = fadd (Fin (real_of_int margin_x)) (fmul (Fin (real i)) bar_width);
          bar_height = fmul v (Fin (real_of_int plot_height));
          y = fsub (Fin (real_of_int (SCREEN_HEIGHT - margin_y))) bar_height
      in if bars then
           case spectrum_color_gradient v of
             Inl e \<Rightarrow> Inl e
           | Inr color \<Rightarrow>
               Inr [Rectangle (x, y)
                      (fsub (fadd x bar_width) (Fin 1), Fin (real_of_int (SCREEN_HEIGHT - margin_y)))
                      color]
         else
           case char_index v of
             Inl e \<Rightarrow> Inl e
           | Inr k \<Rightarrow>
              (case py_index ASCII_CHARS k of
                 Inl e \<Rightarrow> Inl e
               | Inr char \<Rightarrow>
                  (case py_int (fmul v (Fin 30)) of
                     Inl e \<Rightarrow> Inl e
                   | Inr num_chars \<Rightarrow>
                       Inr (map (\<lambda>j. Text (x, Fin (real_of_int (SCREEN_HEIGHT - margin_y - j * 20)))
                                        (Glyph char) SPECTRUM_COLOR (load_font found 20))
                                (py_range 0 num_chars 1)))))"

text \<open>
  The loop over the values: the calls drawn, and the exception that ended the loop, if
  one did.
\<close>

fun draw_values ::
    "bool \<Rightarrow> bool \<Rightarrow> pyfloat \<Rightarrow> nat \<Rightarrow> pyfloat list \<Rightarrow> draw_op list \<times> py_exception option" where
  "draw_values bars found bar_width i [] = ([], None)"
| "draw_values bars found bar_width i (v # vs) =
     (case draw_value bars found bar_width i v of
        Inl e \<Rightarrow> ([], Some e)
      | Inr ops \<Rightarrow>
         (case draw_values bars found bar_width (Suc i) vs of
            (rest, r) \<Rightarrow> (ops @ rest, r)))"

text \<open>
  \<^verbatim>\<open>
  title = f"RTL-SDR SPECTRUM: {freq_low/1e6:.1f} - {freq_high/1e6:.1f} MHz"
  draw.text((margin_x, 30), title, fill=TEXT_COLOR, font=font)
  for i in range(0, 6):
      freq_mhz = freq_low/1e6 + (freq_high - freq_low)/1e6 * i / 5
      x = margin_x + int(plot_width * i / 5)
      draw.text((x - 30, SCREEN_HEIGHT - margin_y + 10), f"{freq_mhz:.1f}", fill=TEXT_COLOR, font=small_font)
  timestamp = time.strftime("%Y-%m-%d %H:%M:%S")
  draw.text((SCREEN_WIDTH - margin_x - 200, 30), timestamp, fill=TEXT_COLOR, font=small_font)
  \<close>
\<close>

definition labels :: "bool \<Rightarrow> string \<Rightarrow> pyfloat \<Rightarrow> pyfloat \<Rightarrow> draw_op list" where
  "labels found now lo hi =
     (let font = load_font found 24; small_font = load_font found 18
      in [Text (Fin (real_of_int margin_x), Fin 30)
            (Title (fdiv lo (Fin 1000000)) (fdiv hi (Fin 1000000))) TEXT_COLOR font]
         @ map (\<lambda>i. let freq_mhz =
                          fadd (fdiv lo (Fin 1000000))
                            (fdiv (fmul (fdiv (fsub hi lo) (Fin 1000000)) (Fin (real_of_int i)))
                               (Fin 5));
                        x = margin_x + py_trunc (real_of_int (plot_width * i) / 5)
                    in Text (Fin (real_of_int (x - 30)),
                             Fin (real_of_int (SCREEN_HEIGHT - margin_y + 10)))
                         (Frequency freq_mhz) TEXT_COLOR small_font)
               (py_range 0 6 1)
         @ [Text (Fin (real_of_int (SCREEN_WIDTH - margin_x - 200)), Fin 30) (Timestamp now)
              TEXT_COLOR small_font])"

definition new_image :: "draw_op list \<Rightarrow> frame" where
  "new_image ops =
     \<lparr>frame_size = (SCREEN_WIDTH, SCREEN_HEIGHT), frame_bg = BG_COLOR, frame_ops = ops\<rparr>"

text \<open>
  \<^verbatim>\<open>
  def create_spectrum_image(spectrum_data):
      img = Image.new('RGB', (SCREEN_WIDTH, SCREEN_HEIGHT), BG_COLOR)
      draw = ImageDraw.Draw(img)
      if spectrum_data is None:
          ... font of size 40, or the default font ...
          draw.text((SCREEN_WIDTH//2 - 200, SCREEN_HEIGHT//2),
                    "Waiting for RTL-SDR data...", fill=TEXT_COLOR, font=font)
          return img
      db_values = spectrum_data['db_values']
      freq_low = spectrum_data['freq_low']
      freq_high = spectrum_data['freq_high']
      if not db_values:
          return img
      normalized = normalize_db_values(db_values)
      ... grid, bars or characters, labels ...
      return img
  \<close>
\<close>

definition create_spectrum_image ::
    "bool \<Rightarrow> bool \<Rightarrow> string \<Rightarrow> sweep option \<Rightarrow> outcome" where
  "create_spectrum_image bars found now spectrum_data =
     (case spectrum_data of
        None \<Rightarrow>
          Returns (new_image
            [Text (Fin (real_of_int (SCREEN_WIDTH div 2 - 200)),
                   Fin (real_of_int (SCREEN_HEIGHT div 2)))
               (Message ''Waiting for RTL-SDR data...'') TEXT_COLOR (load_font found 40)])
      | Some data \<Rightarrow>
          if db_values data = [] then Returns (new_image [])
          else
            case normalize_db_values (db_values data) of
              Inl e \<Rightarrow> Raises e (new_image [])
            | Inr normalized \<Rightarrow>
               (let grid = grid_horizontal @ grid_vertical
                in case py_truediv (Fin (real_of_int plot_width)) (Fin (real (length normalized))) of
                     Inl e \<Rightarrow> Raises e (new_image grid)
                   | Inr bar_width \<Rightarrow>
                      (case draw_values bars found bar_width 0 normalized of
                         (drawn, Some e) \<Rightarrow> Raises e (new_image (grid @ drawn))
                       | (drawn, None) \<Rightarrow>
                           Returns (new_image
                             (grid @ drawn
                              @ labels found now (freq_low data) (freq_high data))))))"

text \<open>The lines of a frame, by direction.\<close>

fun is_horizontal :: "draw_op \<Rightarrow> bool" where
  "is_horizontal (Line (x0, y0) (x1, y1) c w) = (y0 = y1)"
| "is_horizontal _ = False"

fun is_vertical :: "draw_op \<Rightarrow> bool" where
  "is_vertical (Line (x0, y0) (x1, y1) c w) = (x0 = x1)"
| "is_vertical _ = False"

fun is_line :: "draw_op \<Rightarrow> bool" where
  "is_line (Line p q c w) = True"
| "is_line _ = False"

text \<open>The grid lines drawn on the image of a call.\<close>

definition horizontal_lines :: "outcome \<Rightarrow> draw_op list" where
  "horizontal_lines r = filter is_horizontal (frame_ops (image_of r))"

definition vertical_lines :: "outcome \<Rightarrow> draw_op list" where
  "vertical_lines r = filter is_vertical (frame_ops (image_of r))"

section \<open>Properties\<close>

subsection \<open>Floats\<close>

lemma threshold_big: "10 ^ 305 < overflow_threshold"
  by (simp add: overflow_threshold_def)

lemma fin_small: "\<bar>r\<bar> \<le> 10 ^ 305 \<Longrightarrow> fin r = Fin r"
  using threshold_big by (auto simp: fin_def)

lemma fin_below: "\<bar>r\<bar> < overflow_threshold \<Longrightarrow> fin r = Fin r"
  by (auto simp: fin_def)

lemma fin_lin:
  assumes "\<bar>v\<bar> \<le> 10 ^ 300" "\<bar>r\<bar> \<le> 5000 * \<bar>v\<bar> + 5000"
  shows "fin r = Fin r"
proof -
  have "(10::real) ^ 305 = 100000 * 10 ^ 300" by simp
  moreover have "(1::real) \<le> 10 ^ 300" by simp
  ultimately have "\<bar>r\<bar> \<le> 10 ^ 305" using assms by linarith
  then show ?thesis by (rule fin_small)
qed

lemma fin_eq_Fin: "fin r = Fin s \<Longrightarrow> r = s"
  by (auto simp: fin_def split: if_splits)

lemma fsub_zero_feq: "fsub x y = Fin 0 \<Longrightarrow> feq x y"
  by (cases x; cases y) (auto simp: fsub_def feq_def dest: fin_eq_Fin)

subsection \<open>Truncation\<close>

lemma py_trunc_nonneg: "0 \<le> x \<Longrightarrow> 0 \<le> py_trunc x"
  unfolding py_trunc_def by simp

lemma py_trunc_le: "0 \<le> x \<Longrightarrow> x \<le> real_of_int n \<Longrightarrow> py_trunc x \<le> n"
  unfolding py_trunc_def by (simp add: floor_le_iff)

lemma py_trunc_ge: "0 \<le> x \<Longrightarrow> real_of_int n \<le> x \<Longrightarrow> n \<le> py_trunc x"
  unfolding py_trunc_def by (simp add: le_floor_iff)

lemma py_trunc_between:
  "0 \<le> x \<Longrightarrow> real_of_int lo \<le> x \<Longrightarrow> x \<le> real_of_int hi \<Longrightarrow>
     lo \<le> py_trunc x \<and> py_trunc x \<le> hi"
  by (simp add: py_trunc_ge py_trunc_le)

lemma py_trunc_consts: "py_trunc 0 = 0" "py_trunc 255 = 255"
  by (simp_all add: py_trunc_def)

subsection \<open>The gradient on finite values\<close>

lemma lerp_simps:
  "lerp 0 0 t = 0" "lerp 255 255 t = 255" "lerp 0 255 t = t * 255" "lerp 255 0 t = (1 - t) * 255"
  by (simp_all add: lerp_def algebra_simps)

lemma gradient_spec_unfold:
  "gradient_spec v =
     (if v < 0.3 then (0, 0, py_trunc (v / 0.3 * 255))
      else if v < 0.6 then
        (0, py_trunc ((v - 0.3) / 0.3 * 255), py_trunc ((1 - (v - 0.3) / 0.3) * 255))
      else if v < 0.8 then (py_trunc ((v - 0.6) / 0.2 * 255), 255, 0)
      else (255, py_trunc ((1 - (v - 0.8) / 0.2) * 255), 0))"
  by (simp add: gradient_spec_def stage_def red_def green_def blue_def lerp_simps py_trunc_consts)

lemma spec_at_0: "gradient_spec 0 = (0,0,0)"
  by (simp add: gradient_spec_unfold py_trunc_def)
lemma spec_at_1: "gradient_spec 1 = (255,0,0)"
  by (simp add: gradient_spec_unfold py_trunc_def)


lemma unit_scaled: "0 \<le> t \<Longrightarrow> t \<le> 1 \<Longrightarrow> channel_ok (py_trunc (t * 255)) \<and> channel_ok (py_trunc ((1 - t) * 255))"
  unfolding channel_ok_def by (intro conjI py_trunc_nonneg py_trunc_le) auto

lemma spec_channels_ok: assumes "0 \<le> v" "v \<le> 1"
  shows "channel_ok (red (gradient_spec v)) \<and> channel_ok (green (gradient_spec v)) \<and> channel_ok (blue (gradient_spec v))"
proof -
  have c0: "channel_ok 0" and c255: "channel_ok 255" by (simp_all add: channel_ok_def)
  consider "v < 0.3" | "0.3 \<le> v" "v < 0.6" | "0.6 \<le> v" "v < 0.8" | "0.8 \<le> v"
    by linarith
  then show ?thesis
  proof cases
    case 1
    have "channel_ok (py_trunc (v / 0.3 * 255))"
      using unit_scaled [of "v / 0.3"] assms 1 by simp
    with 1 c0 show ?thesis
      by (simp add: gradient_spec_unfold red_def green_def blue_def)
  next
    case 2
    have "channel_ok (py_trunc ((v - 0.3) / 0.3 * 255)) \<and> channel_ok (py_trunc ((1 - (v - 0.3) / 0.3) * 255))"
      using unit_scaled [of "(v - 0.3) / 0.3"] 2 by simp
    with 2 c0 show ?thesis
      by (simp add: gradient_spec_unfold red_def green_def blue_def)
  next
    case 3
    have "channel_ok (py_trunc ((v - 0.6) / 0.2 * 255))"
      using unit_scaled [of "(v - 0.6) / 0.2"] 3 by simp
    with 3 c0 c255 show ?thesis
      by (simp add: gradient_spec_unfold red_def green_def blue_def)
  next
    case 4
    have "channel_ok (py_trunc ((1 - (v - 0.8) / 0.2) * 255))"
      using unit_scaled [of "(v - 0.8) / 0.2"] 4 assms by simp
    with 4 c0 c255 show ?thesis
      by (simp add: gradient_spec_unfold red_def green_def blue_def)
  qed
qed


lemma spec_at_03: "gradient_spec 0.3 = (0, 0, 255)"
  by (simp add: gradient_spec_unfold py_trunc_def)
lemma spec_at_06: "gradient_spec 0.6 = (0, 255, 0)"
  by (simp add: gradient_spec_unfold py_trunc_def)
lemma spec_at_08: "gradient_spec 0.8 = (255, 255, 0)"
  by (simp add: gradient_spec_unfold py_trunc_def)

lemma spec_near_03: assumes "\<bar>v - 0.3\<bar> < 1 / 1275"
  shows "near (gradient_spec v) (gradient_spec 0.3)"
proof (cases "v < 0.3")
  case True
  have "254 \<le> py_trunc (v / 0.3 * 255) \<and> py_trunc (v / 0.3 * 255) \<le> 255"
    using assms True by (intro py_trunc_between) auto
  with True show ?thesis
    by (simp add: spec_at_03 near_def red_def green_def blue_def gradient_spec_unfold py_trunc_consts)
next
  case False
  have a: "0 \<le> py_trunc ((v - 0.3) / 0.3 * 255) \<and> py_trunc ((v - 0.3) / 0.3 * 255) \<le> 1"
    using assms False by (intro py_trunc_between) auto
  have b: "254 \<le> py_trunc ((1 - (v - 0.3) / 0.3) * 255) \<and> py_trunc ((1 - (v - 0.3) / 0.3) * 255) \<le> 255"
    using assms False by (intro py_trunc_between) auto
  have "v < 0.6" using assms by linarith
  with False a b show ?thesis
    by (simp add: spec_at_03 near_def red_def green_def blue_def gradient_spec_unfold py_trunc_consts)
qed

lemma spec_near_06: assumes "\<bar>v - 0.6\<bar> < 1 / 1275"
  shows "near (gradient_spec v) (gradient_spec 0.6)"
proof (cases "v < 0.6")
  case True
  have lo: "\<not> v < 0.3" using assms by auto
  have a: "254 \<le> py_trunc ((v - 0.3) / 0.3 * 255) \<and> py_trunc ((v - 0.3) / 0.3 * 255) \<le> 255"
    using assms True by (intro py_trunc_between) auto
  have b: "0 \<le> py_trunc ((1 - (v - 0.3) / 0.3) * 255) \<and> py_trunc ((1 - (v - 0.3) / 0.3) * 255) \<le> 1"
    using assms True by (intro py_trunc_between) auto
  from True lo a b show ?thesis
    by (simp add: spec_at_06 near_def red_def green_def blue_def gradient_spec_unfold py_trunc_consts)
next
  case False
  have a: "0 \<le> py_trunc ((v - 0.6) / 0.2 * 255) \<and> py_trunc ((v - 0.6) / 0.2 * 255) \<le> 1"
    using assms False by (intro py_trunc_between) auto
  have "v < 0.8" "\<not> v < 0.3" using assms by linarith+
  with False a show ?thesis
    by (simp add: spec_at_06 near_def red_def green_def blue_def gradient_spec_unfold py_trunc_consts)
qed

lemma spec_near_08: assumes "\<bar>v - 0.8\<bar> < 1 / 1275"
  shows "near (gradient_spec v) (gradient_spec 0.8)"
proof (cases "v < 0.8")
  case True
  have lo: "\<not> v < 0.3" "\<not> v < 0.6" using assms by auto
  have a: "254 \<le> py_trunc ((v - 0.6) / 0.2 * 255) \<and> py_trunc ((v - 0.6) / 0.2 * 255) \<le> 255"
    using assms True by (intro py_trunc_between) auto
  from True lo a show ?thesis
    by (simp add: spec_at_08 near_def red_def green_def blue_def gradient_spec_unfold py_trunc_consts)
next
  case False
  have a: "254 \<le> py_trunc ((1 - (v - 0.8) / 0.2) * 255) \<and> py_trunc ((1 - (v - 0.8) / 0.2) * 255) \<le> 255"
    using assms False by (intro py_trunc_between) auto
  have "\<not> v < 0.3" "\<not> v < 0.6" using assms by auto
  with False a show ?thesis
    by (simp add: spec_at_08 near_def red_def green_def blue_def gradient_spec_unfold py_trunc_consts)
qed

lemma gradient_Fin:
  assumes "\<bar>v\<bar> \<le> 10 ^ 300"
  shows "spectrum_color_gradient (Fin v) = Inr (gradient_spec v)"
proof -
  have b: "\<bar>v\<bar> \<le> 10 ^ 300" by fact
  have f0: "fin (v / 0.3) = Fin (v / 0.3)" by (rule fin_lin [OF b]) (simp add: diff_divide_distrib algebra_simps)
  have f1: "fin (v / 0.3 * 255) = Fin (v / 0.3 * 255)" by (rule fin_lin [OF b]) (simp add: diff_divide_distrib algebra_simps)
  have f2: "fin (v - 0.3) = Fin (v - 0.3)" by (rule fin_lin [OF b]) (simp add: diff_divide_distrib algebra_simps)
  have f3: "fin ((v - 0.3) / 0.3) = Fin ((v - 0.3) / 0.3)" by (rule fin_lin [OF b]) (simp add: diff_divide_distrib algebra_simps)
  have f4: "fin ((v - 0.3) / 0.3 * 255) = Fin ((v - 0.3) / 0.3 * 255)" by (rule fin_lin [OF b]) (simp add: diff_divide_distrib algebra_simps)
  have f5: "fin (1 - (v - 0.3) / 0.3) = Fin (1 - (v - 0.3) / 0.3)" by (rule fin_lin [OF b]) (simp add: diff_divide_distrib algebra_simps)
  have f6: "fin ((1 - (v - 0.3) / 0.3) * 255) = Fin ((1 - (v - 0.3) / 0.3) * 255)" by (rule fin_lin [OF b]) (simp add: diff_divide_distrib algebra_simps)
  have f7: "fin (v - 0.6) = Fin (v - 0.6)" by (rule fin_lin [OF b]) (simp add: diff_divide_distrib algebra_simps)
  have f8: "fin ((v - 0.6) / 0.2) = Fin ((v - 0.6) / 0.2)" by (rule fin_lin [OF b]) (simp add: diff_divide_distrib algebra_simps)
  have f9: "fin ((v - 0.6) / 0.2 * 255) = Fin ((v - 0.6) / 0.2 * 255)" by (rule fin_lin [OF b]) (simp add: diff_divide_distrib algebra_simps)
  have f10: "fin (v - 0.8) = Fin (v - 0.8)" by (rule fin_lin [OF b]) (simp add: diff_divide_distrib algebra_simps)
  have f11: "fin ((v - 0.8) / 0.2) = Fin ((v - 0.8) / 0.2)" by (rule fin_lin [OF b]) (simp add: diff_divide_distrib algebra_simps)
  have f12: "fin (1 - (v - 0.8) / 0.2) = Fin (1 - (v - 0.8) / 0.2)" by (rule fin_lin [OF b]) (simp add: diff_divide_distrib algebra_simps)
  have f13: "fin ((1 - (v - 0.8) / 0.2) * 255) = Fin ((1 - (v - 0.8) / 0.2) * 255)" by (rule fin_lin [OF b]) (simp add: diff_divide_distrib algebra_simps)
  note fs = f0 f1 f2 f3 f4 f5 f6 f7 f8 f9 f10 f11 f12 f13
  note ev = flt.simps fdiv.simps fmul.simps fsub_def fneg.simps fadd.simps
    diff_conv_add_uminus [symmetric] fs Let_def py_int_def pyfloat.case sum.case
    if_True if_False simp_thms
  consider "v < 0.3" | "\<not> v < 0.3" "v < 0.6" | "\<not> v < 0.3" "\<not> v < 0.6" "v < 0.8"
    | "\<not> v < 0.3" "\<not> v < 0.6" "\<not> v < 0.8"
    by blast
  then show ?thesis
  proof cases
    case 1
    show ?thesis
      unfolding gradient_spec_unfold spectrum_color_gradient_def by (simp only: ev 1)
  next
    case 2
    show ?thesis
      unfolding gradient_spec_unfold spectrum_color_gradient_def by (simp only: ev 2)
  next
    case 3
    show ?thesis
      unfolding gradient_spec_unfold spectrum_color_gradient_def by (simp only: ev 3)
  next
    case 4
    show ?thesis
      unfolding gradient_spec_unfold spectrum_color_gradient_def by (simp only: ev 4)
  qed
qed

subsection \<open>Normalisation\<close>

lemma fold_min_Fin:
  "fold (\<lambda>item cur. if flt item cur then item else cur) (map Fin xs) (Fin x) = Fin (fold min xs x)"
proof (induction xs arbitrary: x)
  case Nil
  show ?case by simp
next
  case (Cons a xs)
  have "(if a < x then a else x) = min a x" by (simp add: min_def)
  with Cons [of "min a x"] show ?case by (simp add: if_distrib [of Fin, symmetric])
qed

lemma fold_max_Fin:
  "fold (\<lambda>item cur. if fgt item cur then item else cur) (map Fin xs) (Fin x) = Fin (fold max xs x)"
proof (induction xs arbitrary: x)
  case Nil
  show ?case by simp
next
  case (Cons a xs)
  have "(if x < a then a else x) = max a x" by (simp add: max_def)
  with Cons [of "max a x"] show ?case by (simp add: fgt_def if_distrib [of Fin, symmetric])
qed

lemma py_min_Fin: "py_min (Fin x) (map Fin xs) = Fin (Min (set (x # xs)))"
  by (simp only: py_min_def fold_min_Fin Min.set_eq_fold)

lemma py_max_Fin: "py_max (Fin x) (map Fin xs) = Fin (Max (set (x # xs)))"
  by (simp only: py_max_def fold_max_Fin Max.set_eq_fold)

lemma comprehension_map:
  "(\<And>x. x \<in> set xs \<Longrightarrow> f x = Inr (g x)) \<Longrightarrow> comprehension f xs = Inr (map g xs)"
  by (induction xs) simp_all

lemma normalize_returns:
  "\<exists>ys. normalize_db_values xs = Inr ys \<and> length ys = length xs"
proof (cases xs)
  case Nil
  then show ?thesis by (simp add: normalize_db_values_def)
next
  case (Cons x xs')
  let ?mn = "py_min x xs'" and ?mx = "py_max x xs'"
  show ?thesis
  proof (cases "feq ?mx ?mn")
    case True
    with Cons show ?thesis by (simp add: normalize_db_values_def Let_def)
  next
    case False
    then have "fsub ?mx ?mn \<noteq> Fin 0" using fsub_zero_feq by blast
    then have "\<And>db. py_truediv (fsub db ?mn) (fsub ?mx ?mn) = Inr (fdiv (fsub db ?mn) (fsub ?mx ?mn))"
      by (simp add: py_truediv_def)
    then have "comprehension (\<lambda>db. py_truediv (fsub db ?mn) (fsub ?mx ?mn)) xs =
        Inr (map (\<lambda>db. fdiv (fsub db ?mn) (fsub ?mx ?mn)) xs)"
      by (intro comprehension_map) simp
    with Cons False show ?thesis by (simp add: normalize_db_values_def Let_def)
  qed
qed

lemma normalize_finite:
  assumes "rs \<noteq> []" "Min (set rs) \<noteq> Max (set rs)"
    and "Max (set rs) - Min (set rs) < overflow_threshold"
  shows "normalize_db_values (map Fin rs) =
    Inr (map (\<lambda>r. Fin ((r - Min (set rs)) / (Max (set rs) - Min (set rs)))) rs)"
proof -
  let ?mn = "Min (set rs)" and ?mx = "Max (set rs)"
  from assms(1) obtain x xs where rs: "rs = x # xs" by (cases rs) auto
  have mn: "py_min (Fin x) (map Fin xs) = Fin ?mn" and mx: "py_max (Fin x) (map Fin xs) = Fin ?mx"
    unfolding rs by (rule py_min_Fin, rule py_max_Fin)
  have "?mn \<in> set rs" "?mx \<in> set rs" using assms(1) by simp_all
  then have "?mn \<le> ?mx" by simp
  with assms(2) have pos: "0 < ?mx - ?mn" by simp
  have one: "(1::real) < overflow_threshold" using threshold_big by simp
  have d: "fsub (Fin ?mx) (Fin ?mn) = Fin (?mx - ?mn)"
    using pos assms(3) by (simp add: fsub_def fin_below)
  have each: "py_truediv (fsub (Fin r) (Fin ?mn)) (fsub (Fin ?mx) (Fin ?mn)) =
      Inr (Fin ((r - ?mn) / (?mx - ?mn)))" if "r \<in> set rs" for r
  proof -
    from that have lo: "?mn \<le> r" and hi: "r \<le> ?mx" by simp_all
    then have n: "fsub (Fin r) (Fin ?mn) = Fin (r - ?mn)"
      using assms(3) by (simp add: fsub_def fin_below)
    have "0 \<le> (r - ?mn) / (?mx - ?mn)" "(r - ?mn) / (?mx - ?mn) \<le> 1"
      using lo hi pos by (simp_all add: divide_simps)
    then have "\<bar>(r - ?mn) / (?mx - ?mn)\<bar> < overflow_threshold"
      using one by linarith
    then have "fin ((r - ?mn) / (?mx - ?mn)) = Fin ((r - ?mn) / (?mx - ?mn))"
      by (rule fin_below)
    with pos show ?thesis by (simp add: py_truediv_def d n)
  qed
  have "comprehension (\<lambda>db. py_truediv (fsub db (Fin ?mn)) (fsub (Fin ?mx) (Fin ?mn))) (map Fin rs)
      = Inr (map (\<lambda>db. case db of Fin r \<Rightarrow> Fin ((r - ?mn) / (?mx - ?mn)) | _ \<Rightarrow> NaN) (map Fin rs))"
    by (intro comprehension_map) (auto simp: each)
  then have c: "comprehension (\<lambda>db. py_truediv (fsub db (Fin ?mn)) (fsub (Fin ?mx) (Fin ?mn))) (map Fin rs)
      = Inr (map (\<lambda>r. Fin ((r - ?mn) / (?mx - ?mn))) rs)"
    by (simp add: comp_def)
  have "\<not> feq (Fin ?mx) (Fin ?mn)" using assms(2) by (simp add: feq_def)
  then have "normalize_db_values (Fin x # map Fin xs) =
      comprehension (\<lambda>db. py_truediv (fsub db (Fin ?mn)) (fsub (Fin ?mx) (Fin ?mn))) (Fin x # map Fin xs)"
    by (simp only: normalize_db_values_def list.case Let_def mn mx if_False)
  with c show ?thesis by (simp add: rs)
qed

lemma fold_const:
  "\<forall>y\<in>set xs. y = c \<Longrightarrow> \<not> p c c \<Longrightarrow> fold (\<lambda>item cur. if p item cur then item else cur) xs c = c"
  by (induction xs) simp_all

lemma normalize_all_equal:
  assumes "xs \<noteq> []" "\<forall>x\<in>set xs. x = c" "c \<noteq> NaN"
  shows "normalize_db_values xs = Inr (replicate (length xs) (Fin 0.5))"
proof -
  from assms obtain xs' where xs: "xs = c # xs'" and all: "\<forall>y\<in>set xs'. y = c"
    by (cases xs) auto
  have nlt: "\<not> flt c c" by (cases c) simp_all
  have "py_min c xs' = c" unfolding py_min_def using all nlt by (rule fold_const)
  moreover have "py_max c xs' = c" unfolding py_max_def fgt_def using all nlt by (rule fold_const)
  ultimately show ?thesis using assms(3) by (simp add: normalize_db_values_def xs feq_def)
qed

subsection \<open>The reader\<close>

lemma py_float_list_Inr_iff: "comprehension (py_float pf) xs = Inr rs \<longleftrightarrow> map pf xs = map Some rs"
proof (induction xs arbitrary: rs)
  case Nil
  show ?case by auto
next
  case (Cons x xs)
  show ?case
  proof (cases rs)
    case Nil
    then show ?thesis by (simp add: py_float_def split: option.splits sum.splits)
  next
    case (Cons r rs')
    with Cons.IH [of rs'] show ?thesis
      by (auto simp: py_float_def split: option.splits sum.splits)
  qed
qed

lemma py_float_list_Inl: "x \<in> set xs \<Longrightarrow> pf x = None \<Longrightarrow> \<exists>e. comprehension (py_float pf) xs = Inl e"
proof -
  assume a: "x \<in> set xs" "pf x = None"
  have "\<And>rs. map pf xs \<noteq> map Some rs"
  proof
    fix rs assume "map pf xs = map Some rs"
    then have "set (map pf xs) = set (map Some rs)" by simp
    moreover from a have "None \<in> set (map pf xs)" by force
    ultimately show False by auto
  qed
  then have "\<And>rs. comprehension (py_float pf) xs \<noteq> Inr rs" by (simp add: py_float_list_Inr_iff)
  then show ?thesis by (cases "comprehension (py_float pf) xs") auto
qed

lemma read_try_Content:
  assumes "readlines content \<noteq> []" "6 \<le> length (last_row content)"
  shows "read_spectrum_data_try pf (Content content) =
     (case py_float pf (last_row content ! 2) of
        Inl e \<Rightarrow> Inl e
      | Inr lo \<Rightarrow>
         (case py_float pf (last_row content ! 3) of
            Inl e \<Rightarrow> Inl e
          | Inr hi \<Rightarrow>
             (case comprehension (py_float pf) (drop 6 (last_row content)) of
                Inl e \<Rightarrow> Inl e
              | Inr dbs \<Rightarrow> Inr (Some \<lparr>freq_low = lo, freq_high = hi, db_values = dbs\<rparr>))))"
  unfolding last_row_def using assms [unfolded last_row_def]
  by (simp add: read_spectrum_data_try_def Let_def)

lemma read_fields:
  assumes "readlines content \<noteq> []" "last_row content = parts" "6 \<le> length parts"
    "pf (parts ! 2) = Some lo" "pf (parts ! 3) = Some hi" "map pf (drop 6 parts) = map Some dbs"
  shows "read_spectrum_data pf (Content content) = Some \<lparr>freq_low = lo, freq_high = hi, db_values = dbs\<rparr>"
proof -
  from assms(6) have "comprehension (py_float pf) (drop 6 parts) = Inr dbs" by (simp add: py_float_list_Inr_iff)
  with assms show ?thesis
    by (simp add: read_spectrum_data_def read_try_Content py_float_def)
qed

lemma read_short:
  assumes "readlines content \<noteq> []" "length (last_row content) < 6"
  shows "read_spectrum_data pf (Content content) = None"
  using assms by (simp add: read_spectrum_data_def read_spectrum_data_try_def last_row_def Let_def)

lemma read_bad_field:
  assumes "readlines content \<noteq> []" "6 \<le> length (last_row content)"
    "pf (last_row content ! 2) = None \<or> pf (last_row content ! 3) = None
      \<or> (\<exists>x\<in>set (drop 6 (last_row content)). pf x = None)"
  shows "read_spectrum_data pf (Content content) = None"
proof -
  note t = read_try_Content [OF assms(1,2), of pf]
  from assms(3) consider
      (lo) "pf (last_row content ! 2) = None"
    | (hi) "pf (last_row content ! 3) = None"
    | (db) "\<exists>x\<in>set (drop 6 (last_row content)). pf x = None"
    by auto
  then have "\<exists>e. read_spectrum_data_try pf (Content content) = Inl e"
  proof cases
    case lo
    then show ?thesis by (simp add: t py_float_def)
  next
    case hi
    then show ?thesis by (simp add: t py_float_def split: option.splits)
  next
    case db
    then obtain e where "comprehension (py_float pf) (drop 6 (last_row content)) = Inl e"
      using py_float_list_Inl by blast
    then show ?thesis by (simp add: t py_float_def split: option.splits)
  qed
  then show ?thesis by (auto simp: read_spectrum_data_def)
qed

lemma read_Some:
  assumes "read_spectrum_data pf fs = Some sw"
  shows "\<exists>content. fs = Content content \<and> readlines content \<noteq> [] \<and> 6 \<le> length (last_row content)
     \<and> pf (last_row content ! 2) = Some (freq_low sw) \<and> pf (last_row content ! 3) = Some (freq_high sw)
     \<and> map pf (drop 6 (last_row content)) = map Some (db_values sw)"
proof (cases fs)
  case Absent
  with assms show ?thesis by (simp add: read_spectrum_data_def read_spectrum_data_try_def)
next
  case Unreadable
  with assms show ?thesis by (simp add: read_spectrum_data_def read_spectrum_data_try_def)
next
  case (Content content)
  from assms Content have ne: "readlines content \<noteq> []"
    by (auto simp: read_spectrum_data_def read_spectrum_data_try_def)
  have len: "6 \<le> length (last_row content)"
  proof (rule ccontr)
    assume "\<not> 6 \<le> length (last_row content)"
    with ne have "read_spectrum_data pf (Content content) = None" by (simp add: read_short)
    with assms Content show False by simp
  qed
  from assms Content have
    "pf (last_row content ! 2) = Some (freq_low sw) \<and> pf (last_row content ! 3) = Some (freq_high sw)
     \<and> comprehension (py_float pf) (drop 6 (last_row content)) = Inr (db_values sw)"
    by (auto simp: read_spectrum_data_def read_try_Content [OF ne len] py_float_def
        split: option.splits sum.splits)
  with Content ne len show ?thesis by (simp add: py_float_list_Inr_iff)
qed

lemma split_acc_field:
  "sep \<notin> set f \<Longrightarrow> split_acc sep acc (f @ rest) = split_acc sep (rev f @ acc) rest"
  by (induction f arbitrary: acc) auto

lemma split_join:
  assumes "flds \<noteq> []" "\<forall>f\<in>set flds. sep \<notin> set f"
  shows "split sep (join sep flds) = flds"
  using assms
proof (induction sep flds rule: join.induct)
  case (1 sep)
  then show ?case by simp
next
  case (2 sep f)
  then have "split_acc sep [] (f @ []) = [f]" by (subst split_acc_field) auto
  then show ?case by (simp add: split_def)
next
  case (3 sep f g fs)
  from 3 have "split sep (join sep (g # fs)) = g # fs" by simp
  moreover from 3 have "split_acc sep [] (f @ sep # join sep (g # fs)) =
      split_acc sep (rev f @ []) (sep # join sep (g # fs))"
    by (intro split_acc_field) simp
  ultimately show ?case by (simp add: split_def)
qed

lemma universal_newlines_id: "CR \<notin> set xs \<Longrightarrow> universal_newlines xs = xs"
  by (induction xs rule: universal_newlines.induct) auto

lemma cut_lines_single:
  "LF \<notin> set xs \<Longrightarrow> cut_lines acc xs = (if rev acc @ xs = [] then [] else [rev acc @ xs])"
  by (induction xs arbitrary: acc) auto

lemma cut_lines_single_LF:
  "LF \<notin> set xs \<Longrightarrow> cut_lines acc (xs @ [LF]) = [rev acc @ xs @ [LF]]"
  by (induction xs arbitrary: acc) auto

lemma cut_lines_nonempty': "xs \<noteq> [] \<or> acc \<noteq> [] \<Longrightarrow> cut_lines acc xs \<noteq> []"
  by (induction xs arbitrary: acc) auto

lemma cut_lines_nonempty: "xs \<noteq> [] \<Longrightarrow> cut_lines acc xs \<noteq> []"
  by (simp add: cut_lines_nonempty')

lemma cut_lines_last:
  assumes "xs \<noteq> []" "last xs = LF" "ys \<noteq> []"
  shows "last (cut_lines acc (xs @ ys)) = last (cut_lines [] ys)"
  using assms
proof (induction xs arbitrary: acc)
  case Nil
  then show ?case by simp
next
  case (Cons c xs)
  show ?case
  proof (cases "xs = []")
    case True
    with Cons.prems show ?thesis by (simp add: cut_lines_nonempty)
  next
    case False
    with Cons have ih: "\<And>acc. last (cut_lines acc (xs @ ys)) = last (cut_lines [] ys)"
      by simp
    from False Cons.prems have "cut_lines [] (xs @ ys) \<noteq> []"
      by (simp add: cut_lines_nonempty)
    with ih show ?thesis by simp
  qed
qed

lemma cut_lines_final_line:
  assumes "before = [] \<or> last before = LF" "line \<noteq> []"
  shows "last (cut_lines [] (before @ line)) = last (cut_lines [] line)"
  using assms cut_lines_last [of before line "[]"] by (cases "before = []") auto

lemma strip_clean:
  assumes "row \<noteq> []" "\<not> is_space (hd row)" "\<not> is_space (last row)"
  shows "strip row = row" "strip (row @ [LF]) = row"
proof -
  have sp: "is_space LF" by (simp add: is_space_def)
  from assms obtain c cs where row: "row = c # cs" by (cases row) auto
  with assms have d: "dropWhile is_space row = row" "dropWhile is_space (row @ [LF]) = row @ [LF]"
    by simp_all
  from assms have "rev row \<noteq> []" "\<not> is_space (hd (rev row))" by (simp_all add: hd_rev)
  then have r: "dropWhile is_space (rev row) = rev row" by (cases "rev row") auto
  show "strip row = row" by (simp add: strip_def d r)
  have "dropWhile is_space (rev (row @ [LF])) = dropWhile is_space (rev row)" using sp by simp
  then show "strip (row @ [LF]) = row" by (simp add: strip_def d r del: rev_append)
qed

lemma last_row_of_fields:
  assumes content: "content = before @ join (CHR '','') flds @ ending"
    and before: "before = [] \<or> last before = LF"
    and ending: "ending = [] \<or> ending = [LF]"
    and unix: "CR \<notin> set content"
    and fl: "flds \<noteq> []" "\<forall>f\<in>set flds. CHR '','' \<notin> set f \<and> LF \<notin> set f"
    and row: "join (CHR '','') flds \<noteq> []" "\<not> is_space (hd (join (CHR '','') flds))"
      "\<not> is_space (last (join (CHR '','') flds))"
  shows "readlines content \<noteq> [] \<and> last_row content = flds"
proof -
  let ?row = "join (CHR '','') flds"
  have nolf: "LF \<notin> set ?row"
    using fl(2) by (induction "CHR '',''" flds rule: join.induct) auto
  have lines: "readlines content = cut_lines [] (before @ ?row @ ending)"
    using unix by (simp add: readlines_def universal_newlines_id content)
  have ne: "readlines content \<noteq> []"
    unfolding lines using row(1) by (intro cut_lines_nonempty) simp
  have "last (readlines content) = last (cut_lines [] (?row @ ending))"
    unfolding lines using before row(1) by (intro cut_lines_final_line) simp_all
  also have "cut_lines [] (?row @ ending) = [?row @ ending]"
  proof (cases "ending = []")
    case True
    with nolf row(1) show ?thesis by (simp add: cut_lines_single)
  next
    case False
    with ending have "ending = [LF]" by simp
    with nolf show ?thesis by (simp add: cut_lines_single_LF)
  qed
  finally have "last (readlines content) = ?row @ ending" by simp
  moreover have "strip (?row @ ending) = ?row"
    using ending strip_clean [OF row] by auto
  ultimately have "last_row content = split (CHR '','') ?row" by (simp add: last_row_def)
  also have "\<dots> = flds" using fl by (intro split_join) auto
  finally show ?thesis using ne by simp
qed

text \<open>
  A file that ends with the row \<open>join (CHR '','') flds\<close>, with or without a final
  newline, is read as the sweep of these fields.
\<close>

lemma read_row_of_fields:
  assumes "content = before @ join (CHR '','') flds @ ending"
    and "before = [] \<or> last before = LF" and "ending = [] \<or> ending = [LF]"
    and "CR \<notin> set content"
    and "\<forall>f\<in>set flds. CHR '','' \<notin> set f \<and> LF \<notin> set f"
    and "\<not> is_space (hd (join (CHR '','') flds))" "\<not> is_space (last (join (CHR '','') flds))"
    and "6 \<le> length flds"
    and "pf (flds ! 2) = Some lo" "pf (flds ! 3) = Some hi"
    and "map pf (drop 6 flds) = map Some dbs"
  shows "read_spectrum_data pf (Content content) =
    Some \<lparr>freq_low = lo, freq_high = hi, db_values = dbs\<rparr>"
proof -
  from assms(8) obtain f g fs where "flds = f # g # fs"
    by (cases flds; cases "tl flds") auto
  then have ne: "flds \<noteq> []" "join (CHR '','') flds \<noteq> []" by simp_all
  from last_row_of_fields [OF assms(1-4) ne(1) assms(5) ne(2) assms(6,7)]
  have "readlines content \<noteq> []" "last_row content = flds" by simp_all
  then show ?thesis using assms(8-11) by (intro read_fields [where parts = flds]) simp_all
qed

subsection \<open>Concrete rows\<close>

lemma not_space_digit: "\<not> is_space (CHR ''0'')" "\<not> is_space (CHR ''2'')" "\<not> is_space (CHR ''4'')"
   "\<not> is_space (CHR ''5'')" "\<not> is_space (CHR ''x'')"
  by (simp_all add: is_space_def)

text \<open>The row of the end-to-end scenario.\<close>

lemma scenario_lines:
  "readlines ''2024-01-01,12:00:00,88000000,108000000,10000,2000,-70,-60,-50,-80'' =
     [''2024-01-01,12:00:00,88000000,108000000,10000,2000,-70,-60,-50,-80'']"
  by (simp add: readlines_def)

lemma scenario_row:
  "last_row ''2024-01-01,12:00:00,88000000,108000000,10000,2000,-70,-60,-50,-80'' =
     [''2024-01-01'', ''12:00:00'', ''88000000'', ''108000000'', ''10000'', ''2000'',
      ''-70'', ''-60'', ''-50'', ''-80'']"
  by (simp add: last_row_def scenario_lines strip_def not_space_digit split_def)

lemma scenario_lines_nl:
  "readlines ''2024-01-01,12:00:00,88000000,108000000,10000,2000,-70,-60,-50,-80\<newline>'' =
     [''2024-01-01,12:00:00,88000000,108000000,10000,2000,-70,-60,-50,-80\<newline>'']"
  by (simp add: readlines_def)

lemma scenario_row_nl:
  "last_row ''2024-01-01,12:00:00,88000000,108000000,10000,2000,-70,-60,-50,-80\<newline>'' =
     [''2024-01-01'', ''12:00:00'', ''88000000'', ''108000000'', ''10000'', ''2000'',
      ''-70'', ''-60'', ''-50'', ''-80'']"
proof -
  have sp: "is_space LF" by (simp add: is_space_def)
  show ?thesis
    by (simp add: last_row_def scenario_lines_nl strip_def not_space_digit sp split_def)
qed

lemma scenario_floats:
  "float_literal ''88000000'' = Some (Fin 88000000)"
  "float_literal ''108000000'' = Some (Fin 108000000)"
  "float_literal ''-70'' = Some (Fin (- 70))" "float_literal ''-60'' = Some (Fin (- 60))"
  "float_literal ''-50'' = Some (Fin (- 50))" "float_literal ''-80'' = Some (Fin (- 80))"
  by (simp_all add: float_literal_def unsigned_literal_def is_digit_def fin_small)

lemma scenario_normalized:
  "normalize_db_values [Fin (- 70), Fin (- 60), Fin (- 50), Fin (- 80)] =
     Inr [Fin (1 / 3), Fin (2 / 3), Fin 1, Fin 0]"
  by (simp add: normalize_db_values_def py_min_def py_max_def fgt_def feq_def fsub_def
      py_truediv_def fin_small)

text \<open>Small rows for the concrete instances.\<close>

lemma not_space_letters: "\<not> is_space (CHR ''d'')" "\<not> is_space (CHR ''n'')" "\<not> is_space (CHR ''3'')"
  "\<not> is_space (CHR ''c'')"
  by (simp_all add: is_space_def)

lemma short_floats:
  "float_literal ''1'' = Some (Fin 1)" "float_literal ''2'' = Some (Fin 2)"
  "float_literal ''3'' = Some (Fin 3)" "float_literal ''4'' = Some (Fin 4)"
  "float_literal ''x'' = None"
  by (simp_all add: float_literal_def unsigned_literal_def is_digit_def fin_small)

lemma row_ok: "readlines ''d,t,1,2,s,n,3,4\<newline>'' = [''d,t,1,2,s,n,3,4\<newline>'']"
  "last_row ''d,t,1,2,s,n,3,4\<newline>'' = [''d'', ''t'', ''1'', ''2'', ''s'', ''n'', ''3'', ''4'']"
proof -
  have sp: "is_space LF" by (simp add: is_space_def)
  show l: "readlines ''d,t,1,2,s,n,3,4\<newline>'' = [''d,t,1,2,s,n,3,4\<newline>'']"
    by (simp add: readlines_def)
  show "last_row ''d,t,1,2,s,n,3,4\<newline>'' = [''d'', ''t'', ''1'', ''2'', ''s'', ''n'', ''3'', ''4'']"
    by (simp add: last_row_def l strip_def not_space_digit not_space_letters sp split_def)
qed

lemma row_six: "readlines ''d,t,1,2,s,n'' = [''d,t,1,2,s,n'']"
  "last_row ''d,t,1,2,s,n'' = [''d'', ''t'', ''1'', ''2'', ''s'', ''n'']"
proof -
  show l: "readlines ''d,t,1,2,s,n'' = [''d,t,1,2,s,n'']"
    by (simp add: readlines_def)
  show "last_row ''d,t,1,2,s,n'' = [''d'', ''t'', ''1'', ''2'', ''s'', ''n'']"
    by (simp add: last_row_def l strip_def not_space_digit not_space_letters split_def)
qed

lemma row_swapped: "readlines ''d,t,2,1,s,n,3'' = [''d,t,2,1,s,n,3'']"
  "last_row ''d,t,2,1,s,n,3'' = [''d'', ''t'', ''2'', ''1'', ''s'', ''n'', ''3'']"
proof -
  show l: "readlines ''d,t,2,1,s,n,3'' = [''d,t,2,1,s,n,3'']"
    by (simp add: readlines_def)
  show "last_row ''d,t,2,1,s,n,3'' = [''d'', ''t'', ''2'', ''1'', ''s'', ''n'', ''3'']"
    by (simp add: last_row_def l strip_def not_space_digit not_space_letters split_def)
qed

lemma row_short: "readlines ''d,t,1'' = [''d,t,1'']" "last_row ''d,t,1'' = [''d'', ''t'', ''1'']"
proof -
  have ns: "\<not> is_space (CHR ''1'')" by (simp add: is_space_def)
  show l: "readlines ''d,t,1'' = [''d,t,1'']"
    by (simp add: readlines_def)
  show "last_row ''d,t,1'' = [''d'', ''t'', ''1'']"
    by (simp add: last_row_def l strip_def ns not_space_letters split_def)
qed

lemma row_bad: "readlines ''d,t,1,2,s,n,x'' = [''d,t,1,2,s,n,x'']"
  "last_row ''d,t,1,2,s,n,x'' = [''d'', ''t'', ''1'', ''2'', ''s'', ''n'', ''x'']"
proof -
  show l: "readlines ''d,t,1,2,s,n,x'' = [''d,t,1,2,s,n,x'']"
    by (simp add: readlines_def)
  show "last_row ''d,t,1,2,s,n,x'' = [''d'', ''t'', ''1'', ''2'', ''s'', ''n'', ''x'']"
    by (simp add: last_row_def l strip_def not_space_digit not_space_letters split_def)
qed

subsection \<open>The renderer\<close>

lemma range_grid: "py_range 0 11 2 = [0, 2, 4, 6, 8, 10]"
  by (simp add: py_range_def upt_rec)

lemma grid_horizontal_eval:
  "grid_horizontal =
     [Line (100, 100) (1820, 100) (30, 30, 50) 1, Line (100, 276) (1820, 276) (30, 30, 50) 1,
      Line (100, 452) (1820, 452) (30, 30, 50) 1, Line (100, 628) (1820, 628) (30, 30, 50) 1,
      Line (100, 804) (1820, 804) (30, 30, 50) 1, Line (100, 980) (1820, 980) (30, 30, 50) 1]"
  by (simp add: grid_horizontal_def range_grid margin_x_def margin_y_def plot_height_def
      SCREEN_WIDTH_def SCREEN_HEIGHT_def GRID_COLOR_def py_trunc_def)

lemma grid_vertical_eval:
  "grid_vertical =
     [Line (100, 100) (100, 980) (30, 30, 50) 1, Line (444, 100) (444, 980) (30, 30, 50) 1,
      Line (788, 100) (788, 980) (30, 30, 50) 1, Line (1132, 100) (1132, 980) (30, 30, 50) 1,
      Line (1476, 100) (1476, 980) (30, 30, 50) 1, Line (1820, 100) (1820, 980) (30, 30, 50) 1]"
  by (simp add: grid_vertical_def range_grid margin_x_def margin_y_def plot_width_def
      SCREEN_WIDTH_def SCREEN_HEIGHT_def GRID_COLOR_def py_trunc_def)

lemma not_line_filters:
  assumes "\<forall>op\<in>set ops. \<not> is_line op"
  shows "filter is_horizontal ops = [] \<and> filter is_vertical ops = []"
proof -
  have "\<And>op. \<not> is_line op \<Longrightarrow> \<not> is_horizontal op \<and> \<not> is_vertical op"
    by (case_tac op) auto
  with assms show ?thesis by (simp add: filter_empty_conv)
qed

lemma draw_value_no_line:
  "draw_value bars found bw i v = Inr ops \<Longrightarrow> \<forall>op\<in>set ops. \<not> is_line op"
  by (auto simp: draw_value_def Let_def split: if_splits sum.splits)

lemma draw_values_no_line:
  "draw_values bars found bw i vs = (ops, r) \<Longrightarrow> \<forall>op\<in>set ops. \<not> is_line op"
proof (induction vs arbitrary: i ops r)
  case Nil
  then show ?case by simp
next
  case (Cons v vs)
  show ?case
  proof (cases "draw_value bars found bw i v")
    case (Inl e)
    with Cons.prems show ?thesis by simp
  next
    case (Inr a)
    obtain b r' where b: "draw_values bars found bw (Suc i) vs = (b, r')"
      by (cases "draw_values bars found bw (Suc i) vs") auto
    with Inr Cons.prems have "ops = a @ b" by simp
    with draw_value_no_line [OF Inr] Cons.IH [OF b] show ?thesis by auto
  qed
qed

lemma labels_no_line: "\<forall>op\<in>set (labels found now lo hi). \<not> is_line op"
  by (auto simp: labels_def Let_def)

lemma grid_of_image:
  assumes "db_values data \<noteq> []"
  shows "horizontal_lines (create_spectrum_image bars found now (Some data)) = grid_horizontal \<and>
         vertical_lines (create_spectrum_image bars found now (Some data)) = grid_vertical"
proof -
  obtain ys where ys: "normalize_db_values (db_values data) = Inr ys"
    and len: "length ys = length (db_values data)"
    using normalize_returns by blast
  from len assms have "ys \<noteq> []" by auto
  then have bw: "py_truediv (Fin (real_of_int plot_width)) (Fin (real (length ys))) =
      Inr (fin (real_of_int plot_width / real (length ys)))"
    by (simp add: py_truediv_def)
  let ?bw = "fin (real_of_int plot_width / real (length ys))"
  obtain drawn r where d: "draw_values bars found ?bw 0 ys = (drawn, r)"
    by (cases "draw_values bars found ?bw 0 ys") auto
  note nl = not_line_filters [OF draw_values_no_line [OF d]]
    not_line_filters [OF labels_no_line [of found now "freq_low data" "freq_high data"]]
  have h: "filter is_horizontal grid_horizontal = grid_horizontal"
    "filter is_vertical grid_horizontal = []"
    by (simp_all add: grid_horizontal_eval)
  have v: "filter is_horizontal grid_vertical = []"
    "filter is_vertical grid_vertical = grid_vertical"
    by (simp_all add: grid_vertical_eval)
  have "frame_ops (image_of (create_spectrum_image bars found now (Some data))) =
      grid_horizontal @ grid_vertical @ drawn @
        (case r of None \<Rightarrow> labels found now (freq_low data) (freq_high data) | Some e \<Rightarrow> [])"
    using assms by (simp add: create_spectrum_image_def ys bw d new_image_def split: option.splits)
  then show ?thesis
    using nl h v by (simp add: horizontal_lines_def vertical_lines_def split: option.splits)
qed

text \<open>
  A nan among the normalised values ends the rendering with the ValueError of \<^verbatim>\<open>int\<close>;
  the grid has been drawn by then.
\<close>

lemma nan_readings_raise:
  "create_spectrum_image True found now
     (Some \<lparr>freq_low = Fin 1, freq_high = Fin 2, db_values = [NaN, Fin 3]\<rparr>) =
   Raises ValueError (new_image (grid_horizontal @ grid_vertical))"
proof -
  have n: "normalize_db_values [NaN, Fin 3] = Inr [NaN, NaN]"
    by (simp add: normalize_db_values_def py_min_def py_max_def fgt_def feq_def fsub_def
        py_truediv_def)
  have g: "spectrum_color_gradient NaN = Inl ValueError"
    by (simp add: spectrum_color_gradient_def fsub_def py_int_def)
  show ?thesis
    by (simp add: create_spectrum_image_def n py_truediv_def draw_value_def g Let_def)
qed

lemma char_index_Fin:
  assumes "0 \<le> v" "v \<le> 1"
  shows "char_index (Fin v) = Inr (py_trunc (v * 4))"
    and "0 \<le> py_trunc (v * 4) \<and> py_trunc (v * 4) \<le> 4"
proof -
  have "\<bar>v * 4\<bar> \<le> 10 ^ 305"
  proof -
    have "(4::real) \<le> 10 ^ 305" by simp
    with assms show ?thesis by linarith
  qed
  then have "fin (v * 4) = Fin (v * 4)" by (rule fin_small)
  then show "char_index (Fin v) = Inr (py_trunc (v * 4))"
    by (simp add: char_index_def ASCII_CHARS_def py_int_def)
  show "0 \<le> py_trunc (v * 4) \<and> py_trunc (v * 4) \<le> 4"
    using assms by (intro py_trunc_between) auto
qed

section \<open>Claims\<close>

text \<open>
  C1. \<open>spectrum_color_gradient\<close> is a function of its argument alone, computed by
  four linearly interpolated stages (dark to blue below 0.3, blue to green from 0.3 to
  0.6, green to yellow from 0.6 to 0.8, yellow to red from 0.8): it maps 0 to (0,0,0) and
  1 to (255,0,0), every channel is an integer between 0 and 255 for every value in [0,1],
  and at the stage boundaries 0.3, 0.6 and 0.8 it is continuous up to rounding: within
  1/1275 of a boundary every channel is within one unit of its value at the boundary.
  On these values, and on every finite value up to \<open>10^300\<close> in magnitude, it returns
  and raises nothing.
\<close>

theorem spectrum_color_gradient_properties:
  "spectrum_color_gradient (Fin 0) = Inr (0, 0, 0) \<and>
   spectrum_color_gradient (Fin 1) = Inr (255, 0, 0) \<and>
   (\<forall>v. \<bar>v\<bar> \<le> 10 ^ 300 \<longrightarrow> spectrum_color_gradient (Fin v) = Inr (gradient_spec v)) \<and>
   (\<forall>v. 0 \<le> v \<and> v \<le> 1 \<longrightarrow>
        (\<exists>c. spectrum_color_gradient (Fin v) = Inr c \<and>
             channel_ok (red c) \<and> channel_ok (green c) \<and> channel_ok (blue c))) \<and>
   (\<forall>v. \<forall>b\<in>{0.3, 0.6, 0.8}. \<bar>v - b\<bar> < 1 / 1275 \<longrightarrow>
        (\<exists>c d. spectrum_color_gradient (Fin v) = Inr c \<and>
               spectrum_color_gradient (Fin b) = Inr d \<and> near c d))"
proof -
  have small: "\<bar>v\<bar> \<le> 10 ^ 300" if "\<bar>v\<bar> \<le> 2" for v :: real
  proof -
    have "(2::real) \<le> 10 ^ 300" by simp
    with that show ?thesis by linarith
  qed
  have a: "spectrum_color_gradient (Fin 0) = Inr (0, 0, 0)"
    using gradient_Fin [of 0] by (simp add: spec_at_0)
  have b: "spectrum_color_gradient (Fin 1) = Inr (255, 0, 0)"
    using gradient_Fin [of 1] small [of 1] by (simp add: spec_at_1)
  have c: "\<forall>v. 0 \<le> v \<and> v \<le> 1 \<longrightarrow>
        (\<exists>c. spectrum_color_gradient (Fin v) = Inr c \<and>
             channel_ok (red c) \<and> channel_ok (green c) \<and> channel_ok (blue c))"
  proof (intro allI impI)
    fix v :: real assume v: "0 \<le> v \<and> v \<le> 1"
    then have "spectrum_color_gradient (Fin v) = Inr (gradient_spec v)"
      by (intro gradient_Fin small) simp
    with spec_channels_ok [of v] v show "\<exists>c. spectrum_color_gradient (Fin v) = Inr c \<and>
             channel_ok (red c) \<and> channel_ok (green c) \<and> channel_ok (blue c)"
      by simp
  qed
  have d: "\<exists>c d. spectrum_color_gradient (Fin v) = Inr c \<and>
               spectrum_color_gradient (Fin b) = Inr d \<and> near c d"
    if "b \<in> {0.3, 0.6, 0.8}" "\<bar>v - b\<bar> < 1 / 1275" for v b :: real
  proof -
    from that(1) have b: "0 \<le> b" "b \<le> 1" by auto
    with that(2) have "\<bar>b\<bar> \<le> 2" "\<bar>v\<bar> \<le> 2" by linarith+
    then have "spectrum_color_gradient (Fin v) = Inr (gradient_spec v)"
      "spectrum_color_gradient (Fin b) = Inr (gradient_spec b)"
      by (simp_all add: gradient_Fin small)
    moreover have "near (gradient_spec v) (gradient_spec b)"
    proof -
      from that(1) consider "b = 0.3" | "b = 0.6" | "b = 0.8" by blast
      then show ?thesis
      proof cases
        case 1
        with that(2) show ?thesis by (simp only: spec_near_03)
      next
        case 2
        with that(2) show ?thesis by (simp only: spec_near_06)
      next
        case 3
        with that(2) show ?thesis by (simp only: spec_near_08)
      qed
    qed
    ultimately show ?thesis by simp
  qed
  from a b c d gradient_Fin show ?thesis by blast
qed

theorem spectrum_color_gradient_properties_witness:
  "(\<exists>c. spectrum_color_gradient (Fin 0.7) = Inr c \<and>
        channel_ok (red c) \<and> channel_ok (green c) \<and> channel_ok (blue c)) \<and>
   (\<exists>c d. spectrum_color_gradient (Fin 0.2995) = Inr c \<and>
          spectrum_color_gradient (Fin 0.3) = Inr d \<and> near c d) \<and>
   (\<exists>c d. spectrum_color_gradient (Fin 0.6005) = Inr c \<and>
          spectrum_color_gradient (Fin 0.6) = Inr d \<and> near c d) \<and>
   (\<exists>c d. spectrum_color_gradient (Fin 0.7995) = Inr c \<and>
          spectrum_color_gradient (Fin 0.8) = Inr d \<and> near c d) \<and>
   spectrum_color_gradient (Fin 0.5) = Inr (gradient_spec 0.5)"
proof -
  have r: "(0::real) \<le> 0.7 \<and> (0.7::real) \<le> 1" by simp
  have a: "\<bar>0.2995 - 0.3 :: real\<bar> < 1 / 1275" by simp
  have b: "\<bar>0.6005 - 0.6 :: real\<bar> < 1 / 1275" by simp
  have c: "\<bar>0.7995 - 0.8 :: real\<bar> < 1 / 1275" by simp
  have d: "\<bar>0.5 :: real\<bar> \<le> 10 ^ 300" by simp
  from spectrum_color_gradient_properties r a b c d show ?thesis by blast
qed

text \<open>
  C2, as stated: for every non-empty list of readings whose minimum differs from its
  maximum, every normalised value lies in [0,1], the maximum is mapped to 1 and the
  minimum to 0. The readings are floats as \<^verbatim>\<open>float\<close> parses them: when the difference
  of the maximum and the minimum overflows, as for \<open>2^1023\<close> and \<open>- 2^1023\<close> (or 1e308 and
  -1e308), or when a reading is infinite, quotients are nan.
\<close>

theorem normalize_db_values_range_counterexample:
  "normalize_db_values [Fin (2 ^ 1023), Fin (- (2 ^ 1023))] = Inr [NaN, Fin 0] \<and>
   normalize_db_values [PInf, Fin 0] = Inr [NaN, Fin 0] \<and>
   normalize_db_values [NInf, Fin (- 50)] = Inr [NaN, NaN] \<and>
   \<not> in_unit NaN \<and> NaN \<noteq> Fin 1"
  by (simp add: normalize_db_values_def py_min_def py_max_def fgt_def feq_def fsub_def
      py_truediv_def fin_def overflow_threshold_def in_unit_def)

text \<open>
  C2, amended: for every non-empty list of finite readings whose minimum differs from its
  maximum and whose difference of maximum and minimum does not overflow (it is below
  \<open>2^1024 - 2^970\<close>), every normalised value lies in [0,1], every element equal to the
  maximum is mapped to 1 and every element equal to the minimum to 0; for every non-empty
  list whose elements are all equal, and not nan, the result has the same length and is
  0.5 everywhere; and for every list the function returns: no division by zero occurs.
\<close>

theorem normalize_db_values_finite_range:
  "(rs \<noteq> [] \<and> Min (set rs) \<noteq> Max (set rs) \<and>
      Max (set rs) - Min (set rs) < overflow_threshold \<longrightarrow>
      (\<exists>ys. normalize_db_values (map Fin rs) = Inr ys \<and> length ys = length rs \<and>
         (\<forall>y\<in>set ys. in_unit y) \<and>
         (\<forall>i<length rs. rs ! i = Max (set rs) \<longrightarrow> ys ! i = Fin 1) \<and>
         (\<forall>i<length rs. rs ! i = Min (set rs) \<longrightarrow> ys ! i = Fin 0))) \<and>
   (xs \<noteq> [] \<and> (\<forall>x\<in>set xs. x = c) \<and> c \<noteq> NaN \<longrightarrow>
      normalize_db_values xs = Inr (replicate (length xs) (Fin 0.5))) \<and>
   (\<exists>ys. normalize_db_values zs = Inr ys)"
proof (intro conjI impI)
  assume a: "rs \<noteq> [] \<and> Min (set rs) \<noteq> Max (set rs) \<and>
      Max (set rs) - Min (set rs) < overflow_threshold"
  let ?mn = "Min (set rs)" and ?mx = "Max (set rs)"
  let ?ys = "map (\<lambda>r. Fin ((r - ?mn) / (?mx - ?mn))) rs"
  from a have n: "normalize_db_values (map Fin rs) = Inr ?ys" by (intro normalize_finite) simp_all
  have "?mn \<in> set rs" "?mx \<in> set rs" using a by simp_all
  then have "?mn \<le> ?mx" by simp
  moreover from a have "?mn \<noteq> ?mx" by simp
  ultimately have pos: "0 < ?mx - ?mn" by linarith
  have u: "\<forall>y\<in>set ?ys. in_unit y"
  proof
    fix y assume "y \<in> set ?ys"
    then obtain r where r: "r \<in> set rs" and y: "y = Fin ((r - ?mn) / (?mx - ?mn))" by auto
    from r have "?mn \<le> r" "r \<le> ?mx" by simp_all
    with pos show "in_unit y" by (simp add: y in_unit_def divide_simps)
  qed
  have hi: "\<forall>i<length rs. rs ! i = ?mx \<longrightarrow> ?ys ! i = Fin 1" using pos by simp
  have lo: "\<forall>i<length rs. rs ! i = ?mn \<longrightarrow> ?ys ! i = Fin 0" by simp
  from n u hi lo show "\<exists>ys. normalize_db_values (map Fin rs) = Inr ys \<and> length ys = length rs \<and>
         (\<forall>y\<in>set ys. in_unit y) \<and>
         (\<forall>i<length rs. rs ! i = Max (set rs) \<longrightarrow> ys ! i = Fin 1) \<and>
         (\<forall>i<length rs. rs ! i = Min (set rs) \<longrightarrow> ys ! i = Fin 0)"
    by (intro exI [of _ ?ys]) simp
next
  assume "xs \<noteq> [] \<and> (\<forall>x\<in>set xs. x = c) \<and> c \<noteq> NaN"
  then show "normalize_db_values xs = Inr (replicate (length xs) (Fin 0.5))"
    by (intro normalize_all_equal [of xs c]) simp_all
next
  from normalize_returns [of zs] show "\<exists>ys. normalize_db_values zs = Inr ys" by blast
qed

theorem normalize_db_values_finite_range_witness:
  "(\<exists>ys. normalize_db_values [Fin (- 70), Fin (- 60), Fin (- 50), Fin (- 80)] = Inr ys \<and>
        ys ! 2 = Fin 1 \<and> ys ! 3 = Fin 0 \<and> in_unit (ys ! 0)) \<and>
   normalize_db_values [Fin (- 42), Fin (- 42), PInf] \<noteq> Inl ZeroDivisionError \<and>
   normalize_db_values [PInf, PInf] = Inr [Fin 0.5, Fin 0.5]"
proof -
  let ?rs = "[- 70, - 60, - 50, - 80 :: real]"
  have m: "Min (set ?rs) = - 80" "Max (set ?rs) = - 50" by simp_all
  have "(30::real) < overflow_threshold" using threshold_big by simp
  with m have h: "?rs \<noteq> [] \<and> Min (set ?rs) \<noteq> Max (set ?rs) \<and>
      Max (set ?rs) - Min (set ?rs) < overflow_threshold" by simp
  from normalize_db_values_finite_range [of ?rs "[PInf, PInf]" PInf "[Fin (- 42), Fin (- 42), PInf]"] h
  obtain ys where ys: "normalize_db_values (map Fin ?rs) = Inr ys" "length ys = length ?rs"
    "\<forall>y\<in>set ys. in_unit y" "\<forall>i<length ?rs. ?rs ! i = Max (set ?rs) \<longrightarrow> ys ! i = Fin 1"
    "\<forall>i<length ?rs. ?rs ! i = Min (set ?rs) \<longrightarrow> ys ! i = Fin 0"
    and eq: "normalize_db_values [PInf, PInf] = Inr (replicate (length [PInf, PInf]) (Fin 0.5))"
    and ret: "\<exists>ys. normalize_db_values [Fin (- 42), Fin (- 42), PInf] = Inr ys"
    by auto
  from ys(2) have "ys ! 0 \<in> set ys" by simp
  with ys(3) have u: "in_unit (ys ! 0)" by blast
  from ys(4) m have t: "ys ! 2 = Fin 1" by simp
  from ys(5) m have z: "ys ! 3 = Fin 0" by simp
  from ys(1) u t z eq ret show ?thesis by (auto simp: numeral_2_eq_2)
qed

text \<open>
  C10. \<open>normalize_db_values\<close> preserves length: for every list, the infinities and nan
  included, it returns a list with exactly as many elements as the input, and the empty
  list is mapped to the empty list.
\<close>

theorem normalize_db_values_length:
  "(\<exists>ys. normalize_db_values readings = Inr ys \<and> length ys = length readings) \<and>
   normalize_db_values [] = Inr []"
  using normalize_returns [of readings] by (simp add: normalize_db_values_def)

text \<open>
  C3. For every file whose last line splits at the commas into at least 6 fields, with
  numeric fields 2 and 3 and N \<ge> 1 numeric fields from index 6 on, \<open>read_spectrum_data\<close>
  returns the sweep whose \<open>freq_low\<close> is field 2, whose \<open>freq_high\<close> is field 3 and
  whose readings are the fields from index 6 on, in order; there are N of them. A field
  is numeric when \<^verbatim>\<open>float\<close> returns a number for it. The fields of the last line
  are \<open>last_row\<close>; by \<open>last_row_of_fields\<close> they are the fields written, for a file
  that ends with a row written field by field.
\<close>

theorem read_spectrum_data_well_formed:
  assumes "readlines content \<noteq> []" and "parts = last_row content"
    and "6 \<le> length parts"
    and "pf (parts ! 2) = Some lo" and "pf (parts ! 3) = Some hi"
    and "map pf (drop 6 parts) = map Some dbs" and "1 \<le> length dbs"
  shows "read_spectrum_data pf (Content content) =
           Some \<lparr>freq_low = lo, freq_high = hi, db_values = dbs\<rparr> \<and>
         length dbs = length parts - 6"
proof -
  from assms(6) have "length (drop 6 parts) = length dbs"
    by (metis length_map)
  then have "length dbs = length parts - 6" by simp
  moreover have "read_spectrum_data pf (Content content) =
      Some \<lparr>freq_low = lo, freq_high = hi, db_values = dbs\<rparr>"
    using assms by (intro read_fields [where parts = parts]) simp_all
  ultimately show ?thesis by simp
qed

theorem read_spectrum_data_well_formed_witness:
  "read_spectrum_data float_literal (Content ''d,t,1,2,s,n,3,4\<newline>'') =
     Some \<lparr>freq_low = Fin 1, freq_high = Fin 2, db_values = [Fin 3, Fin 4]\<rparr> \<and>
   length [Fin 3, Fin 4] = length [''d'', ''t'', ''1'', ''2'', ''s'', ''n'', ''3'', ''4''] - 6"
  using read_spectrum_data_well_formed [of "''d,t,1,2,s,n,3,4\<newline>''"
      "[''d'', ''t'', ''1'', ''2'', ''s'', ''n'', ''3'', ''4'']" float_literal "Fin 1" "Fin 2" "[Fin 3, Fin 4]"]
  by (simp add: row_ok short_floats)

text \<open>
  C4. \<open>read_spectrum_data\<close> returns a sweep or the "no data" value and no exception
  leaves it: an absent file, a file that cannot be read, an empty file, a last line with
  fewer than 6 fields, and a non-numeric frequency or power field all give "no data";
  whenever the body of the reader raises, the result is "no data".
\<close>

theorem read_spectrum_data_no_data:
  "read_spectrum_data pf Absent = None \<and>
   read_spectrum_data pf Unreadable = None \<and>
   read_spectrum_data pf (Content []) = None \<and>
   (readlines content = [] \<longrightarrow> read_spectrum_data pf (Content content) = None) \<and>
   (readlines content \<noteq> [] \<and> length (last_row content) < 6 \<longrightarrow>
      read_spectrum_data pf (Content content) = None) \<and>
   (readlines content \<noteq> [] \<and> 6 \<le> length (last_row content) \<and>
      (pf (last_row content ! 2) = None \<or> pf (last_row content ! 3) = None \<or>
       (\<exists>x\<in>set (drop 6 (last_row content)). pf x = None)) \<longrightarrow>
      read_spectrum_data pf (Content content) = None) \<and>
   (\<forall>e. read_spectrum_data_try pf fs = Inl e \<longrightarrow> read_spectrum_data pf fs = None)"
proof -
  have a: "read_spectrum_data pf Absent = None" "read_spectrum_data pf Unreadable = None"
    "read_spectrum_data pf (Content []) = None"
    by (simp_all add: read_spectrum_data_def read_spectrum_data_try_def readlines_def)
  have b: "readlines content = [] \<longrightarrow> read_spectrum_data pf (Content content) = None"
    by (simp add: read_spectrum_data_def read_spectrum_data_try_def)
  have c: "\<forall>e. read_spectrum_data_try pf fs = Inl e \<longrightarrow> read_spectrum_data pf fs = None"
    by (simp add: read_spectrum_data_def)
  from a b c read_short [of content pf] read_bad_field [of content pf] show ?thesis
    by blast
qed

theorem read_spectrum_data_no_data_witness:
  "read_spectrum_data float_literal (Content ''d,t,1'') = None \<and>
   read_spectrum_data float_literal (Content ''d,t,1,2,s,n,x'') = None"
proof -
  have "read_spectrum_data float_literal (Content ''d,t,1'') = None"
    using read_spectrum_data_no_data [of float_literal "''d,t,1''"] by (simp add: row_short)
  moreover have "read_spectrum_data float_literal (Content ''d,t,1,2,s,n,x'') = None"
    using read_spectrum_data_no_data [of float_literal "''d,t,1,2,s,n,x''"]
    by (simp add: row_bad short_floats)
  ultimately show ?thesis by simp
qed

text \<open>
  C5, as stated: every sweep that \<open>read_spectrum_data\<close> returns has a non-empty list of
  readings and \<open>freq_low \<le> freq_high\<close>. The reader checks neither: a row of exactly six
  fields gives a sweep without readings, and the bounds are returned as they stand in the
  row.
\<close>

theorem read_spectrum_data_invariant_counterexample:
  "read_spectrum_data float_literal (Content ''d,t,1,2,s,n'') =
     Some \<lparr>freq_low = Fin 1, freq_high = Fin 2, db_values = []\<rparr> \<and>
   read_spectrum_data float_literal (Content ''d,t,2,1,s,n,3'') =
     Some \<lparr>freq_low = Fin 2, freq_high = Fin 1, db_values = [Fin 3]\<rparr> \<and>
   \<not> db_values \<lparr>freq_low = Fin 1, freq_high = Fin 2, db_values = []\<rparr> \<noteq> [] \<and>
   \<not> fle (freq_low \<lparr>freq_low = Fin 2, freq_high = Fin 1, db_values = [Fin 3]\<rparr>)
         (freq_high \<lparr>freq_low = Fin 2, freq_high = Fin 1, db_values = [Fin 3]\<rparr>)"
proof -
  have "read_spectrum_data float_literal (Content ''d,t,1,2,s,n'') =
     Some \<lparr>freq_low = Fin 1, freq_high = Fin 2, db_values = []\<rparr>"
    by (rule read_fields [OF _ row_six(2)]) (simp_all add: row_six short_floats)
  moreover have "read_spectrum_data float_literal (Content ''d,t,2,1,s,n,3'') =
     Some \<lparr>freq_low = Fin 2, freq_high = Fin 1, db_values = [Fin 3]\<rparr>"
    by (rule read_fields [OF _ row_swapped(2)]) (simp_all add: row_swapped short_floats)
  ultimately show ?thesis by (simp add: fle_def feq_def)
qed

text \<open>
  C5, amended: every sweep that \<open>read_spectrum_data\<close> returns comes from a readable,
  non-empty file whose last line has at least 6 fields; its bounds are the parsed fields 2
  and 3, in whatever order they stand, and its readings are the parsed fields from index 6
  on, so there is at least one reading exactly when the line has at least 7 fields.
\<close>

theorem read_spectrum_data_returns_parsed_row:
  assumes "read_spectrum_data pf fs = Some sw"
  shows "case fs of
           Content content \<Rightarrow>
             readlines content \<noteq> [] \<and> 6 \<le> length (last_row content) \<and>
             pf (last_row content ! 2) = Some (freq_low sw) \<and>
             pf (last_row content ! 3) = Some (freq_high sw) \<and>
             map pf (drop 6 (last_row content)) = map Some (db_values sw) \<and>
             length (db_values sw) = length (last_row content) - 6 \<and>
             (db_values sw \<noteq> [] \<longleftrightarrow> 7 \<le> length (last_row content))
         | _ \<Rightarrow> False"
proof -
  from read_Some [OF assms] obtain content where c: "fs = Content content"
    and r: "readlines content \<noteq> []" "6 \<le> length (last_row content)"
      "pf (last_row content ! 2) = Some (freq_low sw)"
      "pf (last_row content ! 3) = Some (freq_high sw)"
      "map pf (drop 6 (last_row content)) = map Some (db_values sw)"
    by blast
  from r(5) have "length (drop 6 (last_row content)) = length (db_values sw)"
    by (metis length_map)
  then have len: "length (db_values sw) = length (last_row content) - 6" by simp
  then have "db_values sw \<noteq> [] \<longleftrightarrow> 7 \<le> length (last_row content)"
    by (cases "db_values sw") auto
  with c r len show ?thesis by simp
qed

theorem read_spectrum_data_returns_parsed_row_witness:
  "float_literal (last_row ''d,t,2,1,s,n,3'' ! 2) = Some (Fin 2) \<and>
   float_literal (last_row ''d,t,2,1,s,n,3'' ! 3) = Some (Fin 1) \<and>
   length [Fin 3] = length (last_row ''d,t,2,1,s,n,3'') - 6"
proof -
  have "read_spectrum_data float_literal (Content ''d,t,2,1,s,n,3'') =
     Some \<lparr>freq_low = Fin 2, freq_high = Fin 1, db_values = [Fin 3]\<rparr>"
    by (rule read_fields [OF _ row_swapped(2)]) (simp_all add: row_swapped short_floats)
  from read_spectrum_data_returns_parsed_row [OF this] show ?thesis by simp
qed

text \<open>
  C7. For the capture file with the single row
  \<^verbatim>\<open>2024-01-01,12:00:00,88000000,108000000,10000,2000,-70,-60,-50,-80\<close>, with or without
  a final newline, \<open>read_spectrum_data\<close> returns the sweep from 88000000 to 108000000 with
  the readings -70, -60, -50, -80, and their normalisation is 1/3, 2/3, 1, 0, which is
  [0.333, 0.667, 1.0, 0.0] to three decimals.
\<close>

theorem end_to_end_scenario:
  "read_spectrum_data float_literal
     (Content ''2024-01-01,12:00:00,88000000,108000000,10000,2000,-70,-60,-50,-80'') =
     Some \<lparr>freq_low = Fin 88000000, freq_high = Fin 108000000,
            db_values = [Fin (- 70), Fin (- 60), Fin (- 50), Fin (- 80)]\<rparr> \<and>
   read_spectrum_data float_literal
     (Content ''2024-01-01,12:00:00,88000000,108000000,10000,2000,-70,-60,-50,-80\<newline>'') =
     Some \<lparr>freq_low = Fin 88000000, freq_high = Fin 108000000,
            db_values = [Fin (- 70), Fin (- 60), Fin (- 50), Fin (- 80)]\<rparr> \<and>
   normalize_db_values [Fin (- 70), Fin (- 60), Fin (- 50), Fin (- 80)] =
     Inr [Fin (1 / 3), Fin (2 / 3), Fin 1, Fin 0] \<and>
   list_all2 close_to [Fin (1 / 3), Fin (2 / 3), Fin 1, Fin 0] [0.333, 0.667, 1.0, 0.0]"
proof -
  have a: "read_spectrum_data float_literal
     (Content ''2024-01-01,12:00:00,88000000,108000000,10000,2000,-70,-60,-50,-80'') =
     Some \<lparr>freq_low = Fin 88000000, freq_high = Fin 108000000,
            db_values = [Fin (- 70), Fin (- 60), Fin (- 50), Fin (- 80)]\<rparr>"
    by (rule read_fields [OF _ scenario_row]) (simp_all add: scenario_lines scenario_floats)
  have b: "read_spectrum_data float_literal
     (Content ''2024-01-01,12:00:00,88000000,108000000,10000,2000,-70,-60,-50,-80\<newline>'') =
     Some \<lparr>freq_low = Fin 88000000, freq_high = Fin 108000000,
            db_values = [Fin (- 70), Fin (- 60), Fin (- 50), Fin (- 80)]\<rparr>"
    by (rule read_fields [OF _ scenario_row_nl]) (simp_all add: scenario_lines_nl scenario_floats)
  have c: "list_all2 close_to [Fin (1 / 3), Fin (2 / 3), Fin 1, Fin 0] [0.333, 0.667, 1.0, 0.0]"
    by (simp add: close_to_def)
  from a b c show ?thesis by (simp only: scenario_normalized simp_thms)
qed


text \<open>
  C6, as stated: the grid of a rendered sweep has exactly 5 horizontal and exactly 5
  vertical lines. The loops run over \<^verbatim>\<open>range(0, 11, 2)\<close>, which has six elements, so a
  frame with readings has six lines in each direction.
\<close>

theorem grid_five_lines_counterexample:
  "horizontal_lines (create_spectrum_image BARS_STYLE True ''2024-01-01 12:00:05''
       (Some \<lparr>freq_low = Fin 88000000, freq_high = Fin 108000000,
              db_values = [Fin (- 70), Fin (- 60), Fin (- 50), Fin (- 80)]\<rparr>)) =
     [Line (100, 100) (1820, 100) (30, 30, 50) 1, Line (100, 276) (1820, 276) (30, 30, 50) 1,
      Line (100, 452) (1820, 452) (30, 30, 50) 1, Line (100, 628) (1820, 628) (30, 30, 50) 1,
      Line (100, 804) (1820, 804) (30, 30, 50) 1, Line (100, 980) (1820, 980) (30, 30, 50) 1] \<and>
   length (horizontal_lines (create_spectrum_image BARS_STYLE True ''2024-01-01 12:00:05''
       (Some \<lparr>freq_low = Fin 88000000, freq_high = Fin 108000000,
              db_values = [Fin (- 70), Fin (- 60), Fin (- 50), Fin (- 80)]\<rparr>))) \<noteq> 5 \<and>
   length (vertical_lines (create_spectrum_image BARS_STYLE True ''2024-01-01 12:00:05''
       (Some \<lparr>freq_low = Fin 88000000, freq_high = Fin 108000000,
              db_values = [Fin (- 70), Fin (- 60), Fin (- 50), Fin (- 80)]\<rparr>))) \<noteq> 5"
proof -
  have ne: "db_values \<lparr>freq_low = Fin 88000000, freq_high = Fin 108000000,
      db_values = [Fin (- 70), Fin (- 60), Fin (- 50), Fin (- 80)]\<rparr> \<noteq> []"
    by simp
  show ?thesis
    by (simp add: grid_of_image [OF ne] grid_horizontal_eval grid_vertical_eval)
qed

text \<open>
  C6, amended: when it renders a sweep with at least one reading,
  \<open>create_spectrum_image\<close> draws a grid of 6 horizontal lines, at the fractions 0, 1/5,
  2/5, 3/5, 4/5 and 1 of the plot height, and 6 vertical lines at the same fractions of
  the plot width, all inset by the fixed margins: the lines bound five equal bands in each
  direction. The grid is drawn whatever the readings are, also when a later call raises.
\<close>

theorem grid_six_lines:
  assumes "db_values data \<noteq> []"
  shows "horizontal_lines (create_spectrum_image bars found now (Some data)) =
           map (\<lambda>k. Line (margin_x, margin_y + k * (plot_height div 5))
                        (SCREEN_WIDTH - margin_x, margin_y + k * (plot_height div 5)) GRID_COLOR 1)
               [0, 1, 2, 3, 4, 5] \<and>
         vertical_lines (create_spectrum_image bars found now (Some data)) =
           map (\<lambda>k. Line (margin_x + k * (plot_width div 5), margin_y)
                        (margin_x + k * (plot_width div 5), SCREEN_HEIGHT - margin_y) GRID_COLOR 1)
               [0, 1, 2, 3, 4, 5] \<and>
         plot_height = 5 * (plot_height div 5) \<and> plot_width = 5 * (plot_width div 5)"
  by (simp add: grid_of_image [OF assms] grid_horizontal_eval grid_vertical_eval
      margin_x_def margin_y_def plot_height_def plot_width_def SCREEN_WIDTH_def SCREEN_HEIGHT_def
      GRID_COLOR_def)

theorem grid_six_lines_witness:
  "length (horizontal_lines (create_spectrum_image False False ''2024-01-01 12:00:05''
       (Some \<lparr>freq_low = Fin 1, freq_high = Fin 2, db_values = [Fin 3]\<rparr>))) = 6 \<and>
   length (vertical_lines (create_spectrum_image False False ''2024-01-01 12:00:05''
       (Some \<lparr>freq_low = Fin 1, freq_high = Fin 2, db_values = [NaN, Fin 3]\<rparr>))) = 6"
proof -
  have ne: "db_values \<lparr>freq_low = Fin 1, freq_high = Fin 2, db_values = [Fin 3]\<rparr> \<noteq> []"
    "db_values \<lparr>freq_low = Fin 1, freq_high = Fin 2, db_values = [NaN, Fin 3]\<rparr> \<noteq> []"
    by simp_all
  from grid_six_lines [OF ne(1), of False False "''2024-01-01 12:00:05''"]
    grid_six_lines [OF ne(2), of False False "''2024-01-01 12:00:05''"]
  show ?thesis by simp
qed

text \<open>
  C8. Rendering "no data" gives the same frame at every call: it does not depend on the
  clock or on the rendering style, and for a given font environment it is the background
  with the single waiting message, without bars, grid or timestamp.
\<close>

theorem no_data_frame:
  "create_spectrum_image bars found now None =
     Returns \<lparr>frame_size = (1920, 1080), frame_bg = (10, 10, 20),
          frame_ops = [Text (Fin 760, Fin 540) (Message ''Waiting for RTL-SDR data...'')
                         (100, 255, 200) (load_font found 40)]\<rparr> \<and>
   create_spectrum_image bars found now None = create_spectrum_image bars' found now' None"
  by (simp add: create_spectrum_image_def new_image_def SCREEN_WIDTH_def SCREEN_HEIGHT_def
      BG_COLOR_def TEXT_COLOR_def)

text \<open>
  C9. In the character style, for every normalised value in [0,1] the index
  \<^verbatim>\<open>int(value * (len(ASCII_CHARS) - 1))\<close> is computed without exception and lies between
  0 and 4, so the lookup in the five intensity characters is in range and does not raise.
\<close>

theorem ascii_index_in_bounds:
  "(0 \<le> v \<and> v \<le> 1 \<longrightarrow>
      (\<exists>k. char_index (Fin v) = Inr k \<and> 0 \<le> k \<and> k \<le> 4 \<and>
           py_index ASCII_CHARS k = Inr (ASCII_CHARS ! nat k))) \<and>
   length ASCII_CHARS = 5"
proof -
  have "\<exists>k. char_index (Fin v) = Inr k \<and> 0 \<le> k \<and> k \<le> 4 \<and>
           py_index ASCII_CHARS k = Inr (ASCII_CHARS ! nat k)" if "0 \<le> v" "v \<le> 1"
  proof -
    from char_index_Fin [OF that] have c: "char_index (Fin v) = Inr (py_trunc (v * 4))"
      and b: "0 \<le> py_trunc (v * 4) \<and> py_trunc (v * 4) \<le> 4" by simp_all
    from b have "py_index ASCII_CHARS (py_trunc (v * 4)) = Inr (ASCII_CHARS ! nat (py_trunc (v * 4)))"
      by (simp add: py_index_def ASCII_CHARS_def)
    with c b show ?thesis by blast
  qed
  then show ?thesis by (simp add: ASCII_CHARS_def)
qed

theorem ascii_index_in_bounds_witness:
  "char_index (Fin (1 / 2)) = Inr 2 \<and> py_index ASCII_CHARS 2 = Inr 0x2592 \<and>
   char_index (Fin 1) = Inr 4 \<and> py_index ASCII_CHARS 4 = Inr 0x2588"
proof -
  have b: "(0::real) \<le> 1 / 2 \<and> (1 / 2::real) \<le> 1" "(0::real) \<le> 1 \<and> (1::real) \<le> 1" by simp_all
  from ascii_index_in_bounds [of "1 / 2"] b(1)
  obtain k where k: "char_index (Fin (1 / 2)) = Inr k"
    "py_index ASCII_CHARS k = Inr (ASCII_CHARS ! nat k)" by blast
  from ascii_index_in_bounds [of 1] b(2)
  obtain j where j: "char_index (Fin 1) = Inr j"
    "py_index ASCII_CHARS j = Inr (ASCII_CHARS ! nat j)" by blast
  from k(1) char_index_Fin(1) [of "1 / 2"] have "k = 2" by (simp add: py_trunc_def)
  moreover from j(1) char_index_Fin(1) [of 1] have "j = 4" by (simp add: py_trunc_def)
  ultimately show ?thesis using k j by (simp add: ASCII_CHARS_def)
qed

end
